theory Spec2Isabelle
  imports Complex_Main "HOL-Library.Word"
begin

unbundle bit_operations_syntax

section \<open>s7150duo.c: data acquisition with two Solartron 7150 multimeters over GPIB\<close>

text \<open>
  The program is one sequential \<open>main\<close> and four driver functions. Everything it does to
  the outside (bus, files, pipe to gnuplot, terminal, clock) is an \<open>event\<close> of a trace; everything
  it gets from the outside is a field of the \<open>world\<close> (before and after the acquisition loop) or of
  an \<open>iter\<close> (one per pass of the acquisition loop). A function of the model returns the events it
  caused and either the way the program ended or the values it hands on. \<open>main\<close> is the
  function as the source has it; \<open>process\<close> is its run as a process, with what the C library
  and the system add: the exit that follows the return from \<open>main\<close>, and the signal that
  ends the process when it writes to gnuplot and gnuplot is not there.
\<close>

subsection \<open>Constants of the source\<close>

definition MAXLEN :: nat where "MAXLEN = 90"
definition ESC :: int where "ESC = 27"
definition GNUPLOT :: string where "GNUPLOT = ''gnuplot''"
definition ERR_INST :: int where "ERR_INST = 5"
definition GPIB_BOARD_ID :: int where "GPIB_BOARD_ID = 0"

text \<open>\<open>enum s7150_function\<close> (the build without \<open>PLUS\<close>) and the range \<open>VAUTO\<close>.\<close>

definition DCV :: int where "DCV = 0"
definition ACV :: int where "ACV = 1"
definition OHM :: int where "OHM = 2"
definition DCA :: int where "DCA = 3"
definition ACA :: int where "ACA = 4"
definition DIODE :: int where "DIODE = 5"

definition ylabels :: "string list" where
  "ylabels = [''V'', ''V'', ''kOhms'', ''mA'', ''mA'', ''mV'']"

text \<open>
  The status bit \<open>ERR\<close> comes from the header of the GPIB library, \<open>gpib/ib.h\<close>, which is not a
  file of this program: there it is bit 15 of the status word that \<open>ibwrt\<close> and \<open>ibrd\<close> return.
\<close>

definition ERR :: int where "ERR = 0x8000"

definition EOF :: int where "EOF = - 1"

definition NUL :: char where "NUL = CHR 0x00"
definition LF :: char where "LF = CHR 0x0A"
definition CR :: char where "CR = CHR 0x0D"

definition ord :: "char \<Rightarrow> int" where
  "ord c = of_char c"

subsection \<open>Values of type \<open>float\<close> and \<open>double\<close>\<close>

text \<open>
  The program compares floating-point values with constants and divides once; the comparisons
  of C are exact, false when an operand is not a number. A finite value is the real number it
  stands for.
\<close>

datatype cfloat = Finite real | PInf | MInf | NaN

fun flt :: "cfloat \<Rightarrow> cfloat \<Rightarrow> bool" where
  "flt NaN _ = False"
| "flt _ NaN = False"
| "flt (Finite x) (Finite y) = (x < y)"
| "flt (Finite x) PInf = True"
| "flt MInf (Finite y) = True"
| "flt MInf PInf = True"
| "flt _ _ = False"

definition fgt :: "cfloat \<Rightarrow> cfloat \<Rightarrow> bool" where
  "fgt a b = flt b a"

text \<open>
  \<open>x / y\<close> on two finite doubles where the quotient, if any, is finite: IEEE 754 gives an
  infinity for a nonzero value divided by zero and not-a-number for \<open>0 / 0\<close>.
\<close>

definition fdiv :: "real \<Rightarrow> real \<Rightarrow> cfloat" where
  "fdiv x y = (if y \<noteq> 0 then Finite (x / y)
               else if x > 0 then PInf else if x < 0 then MInf else NaN)"

text \<open>Conversion of a finite double to \<open>int\<close> drops the fraction (rounds towards zero).\<close>

definition int_of_double :: "real \<Rightarrow> int" where
  "int_of_double x = (if x \<ge> 0 then \<lfloor>x\<rfloor> else \<lceil>x\<rceil>)"

subsection \<open>Events and outcomes\<close>

datatype message =
    Disclaimer | Syntax_help | For_help string | Specify_datafile
  | Address_range | Delay_range | Timeout_positive | Mode1_range | Mode2_range
  | Option_perror
  | File_exists string | Cannot_open string | No_gnuplot | Quit
  | Open_error int | Init1_error int | Init2_error int
  | Mode_error | Read_error | Reset_error
  | Summary int int string string int int cfloat
  | Status "64 word" real string string
  | Finished | Blank_lines

datatype file_line =
    Hdr_program | Hdr_comment string | Hdr_start int | Hdr_legend
  | Sample real string string
  | Footer int

datatype gp_line =
    Gp_style string | Gp_labels string | Gp_y2label string
  | Gp_plot string int string int string

datatype event =
    Stderr message | Stdout message
  | Access string | Fgetc_stdin
  | Fopen string | Fprintf_outfile file_line | Fflush_outfile | Fclose_outfile
  | Popen string | Fprintf_gp gp_line | Fflush_gp | Pclose_gp
  | Init_keyboard | Close_keyboard | Kbhit | Readch
  | Ibdev int int | Ibwrt int string | Ibrd int nat
  | Sleep nat | Usleep int
  | Time_call | Timeinfo
  | Call_s7150_read int int
  | Exit_closes_streams

text \<open>
  How a run ends: \<open>Exit c\<close> is \<open>return c\<close> from \<open>main\<close>; \<open>Undefined_behaviour\<close> is a step
  whose effect C leaves open (a write outside a buffer, a division by zero, an overflow of
  \<open>int\<close>, \<open>pclose\<close> of a null stream), after which the model says nothing; \<open>Running\<close> is a
  run that has used up the inputs it was given and has not ended.
\<close>

datatype outcome = Exit int | Undefined_behaviour | Running

type_synonym 'a step = "event list \<times> (outcome + 'a)"

definition andthen :: "'a step \<Rightarrow> ('a \<Rightarrow> 'b step) \<Rightarrow> 'b step" where
  "andthen m f =
     (case m of
        (ev, Inl out) \<Rightarrow> (ev, Inl out)
      | (ev, Inr x) \<Rightarrow> (case f x of (ev', r) \<Rightarrow> (ev @ ev', r)))"

subsection \<open>The driver: \<open>s7150_open\<close>, \<open>s7150_setup\<close>, \<open>s7150_read\<close>, \<open>s7150_close\<close>\<close>

text \<open>What the bus answers to one \<open>s7150_open\<close>: the descriptor of \<open>ibdev\<close> and the status
  words of the two \<open>ibwrt\<close>.\<close>

record open_env =
  dev :: int
  sta_clear :: int
  sta_conf :: int

definition s7150_open :: "int \<Rightarrow> open_env \<Rightarrow> event list \<times> int" where
  "s7150_open pad env =
     (let dvm = dev env in
      if dvm < 0 then ([Ibdev GPIB_BOARD_ID pad, Stderr (Open_error pad)], 0)
      else if sta_clear env AND ERR \<noteq> 0
        then ([Ibdev GPIB_BOARD_ID pad, Ibwrt dvm [CHR ''A'', LF], Stderr (Init1_error pad)], 0)
      else if sta_conf env AND ERR \<noteq> 0
        then ([Ibdev GPIB_BOARD_ID pad, Ibwrt dvm [CHR ''A'', LF], Sleep 2,
               Ibwrt dvm (''U7N0T1'' @ [LF]), Stderr (Init2_error pad)], 0)
      else ([Ibdev GPIB_BOARD_ID pad, Ibwrt dvm [CHR ''A'', LF], Sleep 2,
             Ibwrt dvm (''U7N0T1'' @ [LF])], dvm))"

text \<open>\<open>%d\<close> of \<open>sprintf\<close>.\<close>

fun digits :: "nat \<Rightarrow> string" where
  "digits n = (if n < 10 then [char_of (48 + n)]
               else digits (n div 10) @ [char_of (48 + n mod 10)])"

declare digits.simps [simp del]

definition dec :: "int \<Rightarrow> string" where
  "dec i = (if i < 0 then CHR ''-'' # digits (nat (- i)) else digits (nat i))"

text \<open>
  The integration rate \<open>i\<close> of \<open>s7150_setup\<close>: 3 to begin with, then the three tests of the
  source in their order, each overwriting what came before.
\<close>

definition integration :: "cfloat \<Rightarrow> int" where
  "integration freq =
     (let i = 3;
          i = (if flt freq (Finite 0.25) then 4 else i);
          i = (if fgt freq (Finite 1.5) then 1 else i);
          i = (if fgt freq (Finite 10.0) then 0 else i)
      in i)"

definition s7150_setup :: "int \<Rightarrow> int \<Rightarrow> int \<Rightarrow> int \<Rightarrow> cfloat \<Rightarrow> int \<Rightarrow> event list \<times> int" where
  "s7150_setup dvm display func rng freq sta =
     (let d = (if display = 0 then 1 else 0);
          i = integration freq;
          buf = ''D'' @ dec d @ ''M'' @ dec func @ ''R'' @ dec rng @ ''I'' @ dec i @ [LF]
      in if sta AND ERR \<noteq> 0 then ([Ibwrt dvm buf, Stderr Mode_error], 0)
         else ([Ibwrt dvm buf], 1))"

text \<open>
  \<open>s7150_read\<close>. The bus answers with a status word and the bytes the instrument sends, of
  which \<open>ibrd\<close> stores at most the 16 asked for at the start of \<open>result\<close> and counts them in
  \<open>ibcnt\<close>. \<open>delay * 100000\<close> is a product of \<open>int\<close>s (32 bits).
\<close>

definition INT_MAX :: int where "INT_MAX = 2147483647"

definition s7150_read ::
  "int \<Rightarrow> int \<Rightarrow> string \<Rightarrow> int \<times> string \<Rightarrow> event list \<times> (outcome + int \<times> string)" where
  "s7150_read dvm delay result bus =
     (let call = Call_s7150_read dvm delay;
          sta = fst bus;
          got = take 16 (snd bus);
          ibcnt = length got
      in if delay > 0 \<and> delay * 100000 > INT_MAX then ([call], Inl Undefined_behaviour)
         else
           (let nap = (if delay > 0 then [Usleep (delay * 100000)] else [])
            in if length result < ibcnt then (call # nap @ [Ibrd dvm 16], Inl Undefined_behaviour)
               else if sta AND ERR \<noteq> 0
                 then (call # nap @ [Ibrd dvm 16, Stderr Read_error],
                       Inr (0, got @ drop ibcnt result))
               else if ibcnt = 0 then (call # nap @ [Ibrd dvm 16], Inl Undefined_behaviour)
               else (call # nap @ [Ibrd dvm 16],
                     Inr (1, (got @ drop ibcnt result)[ibcnt - 1 := NUL]))))"

definition s7150_close :: "int \<Rightarrow> int \<Rightarrow> event list \<times> int" where
  "s7150_close dvm sta =
     (let buf = ''DC1'' @ [LF] @ ''A'' @ [LF]
      in if sta AND ERR \<noteq> 0 then ([Ibwrt dvm buf, Stderr Reset_error], 0)
         else ([Ibwrt dvm buf], 1))"

text \<open>The text a \<open>char\<close> buffer holds for \<open>%s\<close>: the bytes before the first NUL.\<close>

definition c_str :: "string \<Rightarrow> string" where
  "c_str buf = takeWhile (\<lambda>c. c \<noteq> NUL) buf"

subsection \<open>Reading the command line: \<open>GetOpt\<close> and \<open>sscanf\<close>\<close>

text \<open>
  \<open>optind\<close> and \<open>optarg\<close> are globals of the program and \<open>letP\<close> is a static of
  \<open>GetOpt\<close>. A pointer into an argument is the rest of the argument from there on; \<open>None\<close>
  is the null pointer. \<open>argv\<close> is the list of the \<open>argc\<close> arguments.
\<close>

record getopt_state =
  optind :: nat
  letP :: "string option"
  optarg :: "string option"

definition SW :: char where "SW = CHR ''-''"

definition gopEOF :: "getopt_state \<Rightarrow> event list \<times> int \<times> getopt_state" where
  "gopEOF g = ([], EOF, g\<lparr>letP := None, optarg := None\<rparr>)"

definition gopError :: "getopt_state \<Rightarrow> event list \<times> int \<times> getopt_state" where
  "gopError g = ([Stderr Option_perror], ord (CHR ''~''), g\<lparr>optarg := None\<rparr>)"

definition GetOpt :: "string list \<Rightarrow> string \<Rightarrow> getopt_state \<Rightarrow> event list \<times> int \<times> getopt_state" where
  "GetOpt argv optionS g =
     (if length argv > optind g then
        (case (case letP g of
                 None \<Rightarrow>
                   (case argv ! optind g of
                      [] \<Rightarrow> Inl (gopEOF g)
                    | c # l \<Rightarrow>
                        if c \<noteq> SW then Inl (gopEOF g)
                        else if (case l of [] \<Rightarrow> False | d # _ \<Rightarrow> d = SW)
                          then Inl (gopEOF (g\<lparr>optind := optind g + 1\<rparr>))
                        else Inr l)
               | Some l \<Rightarrow> Inr l) of
           Inl r \<Rightarrow> r
         | Inr l \<Rightarrow>
             (case l of
                [] \<Rightarrow> gopEOF (g\<lparr>optind := optind g + 1\<rparr>)
              | ch # l' \<Rightarrow>
                  (let optP = dropWhile (\<lambda>c. c \<noteq> ch) optionS in
                   if ch = CHR '':'' \<or> optP = [] then gopError (g\<lparr>letP := Some l'\<rparr>)
                   else if (case tl optP of [] \<Rightarrow> False | d # _ \<Rightarrow> d = CHR '':'')
                     then
                       (let g1 = g\<lparr>optind := optind g + 1\<rparr> in
                        if l' = [] then
                          (if length argv \<le> optind g1 then gopError (g1\<lparr>letP := Some l'\<rparr>)
                           else ([], ord ch,
                                 g1\<lparr>optind := optind g1 + 1, letP := None,
                                    optarg := Some (argv ! optind g1)\<rparr>))
                        else ([], ord ch, g1\<lparr>letP := None, optarg := Some l'\<rparr>))
                   else
                     (if l' = []
                      then ([], ord ch, g\<lparr>optind := optind g + 1, letP := None, optarg := None\<rparr>)
                      else ([], ord ch, g\<lparr>letP := Some l', optarg := None\<rparr>)))))
      else gopEOF g)"

text \<open>
  \<open>sscanf\<close> belongs to the C library. \<open>%5d\<close> skips white space, then reads at most five
  characters: a sign, if there is one, and decimal digits; with no digit nothing is stored.
  \<open>%80s\<close> skips white space and stores at most 80 characters that are not white space.
\<close>

definition isspace :: "char \<Rightarrow> bool" where
  "isspace c = (c = CHR '' '' \<or> (9 \<le> (of_char c :: nat) \<and> (of_char c :: nat) \<le> 13))"

definition isdigit :: "char \<Rightarrow> bool" where
  "isdigit c = (48 \<le> (of_char c :: nat) \<and> (of_char c :: nat) \<le> 57)"

fun number :: "nat \<Rightarrow> string \<Rightarrow> nat" where
  "number acc [] = acc"
| "number acc (c # cs) = number (10 * acc + (of_char c - 48)) cs"

definition scan_d :: "nat \<Rightarrow> string \<Rightarrow> int option" where
  "scan_d width s =
     (let s1 = dropWhile isspace s;
          neg = (case s1 of [] \<Rightarrow> False | c # _ \<Rightarrow> c = CHR ''-'');
          signed = (case s1 of [] \<Rightarrow> False | c # _ \<Rightarrow> c = CHR ''-'' \<or> c = CHR ''+'');
          field = (if signed then take (width - 1) (tl s1) else take width s1);
          ds = takeWhile isdigit field
      in if ds = [] then None
         else Some (if neg then - int (number 0 ds) else int (number 0 ds)))"

definition scan_s :: "nat \<Rightarrow> string \<Rightarrow> string option" where
  "scan_s width s =
     (let t = take width (takeWhile (\<lambda>c. \<not> isspace c) (dropWhile isspace s))
      in if t = [] then None else Some t)"

text \<open>\<open>strclean\<close> ends the text at the first CR or LF and returns the length left.\<close>

definition strclean :: "string \<Rightarrow> string" where
  "strclean buf = takeWhile (\<lambda>c. c \<noteq> LF \<and> c \<noteq> CR) buf"

subsection \<open>The variables of \<open>main\<close> and what the outside provides\<close>

record config =
  do_display :: bool
  do_graph :: bool
  do_overwrite :: bool
  pad1 :: int
  pad2 :: int
  do_flush :: int
  delay :: int
  mode1 :: int
  mode2 :: int
  range_sel :: int
  tstop :: cfloat
  comment :: string
  gnuplot :: string

definition defaults :: config where
  "defaults = \<lparr>do_display = True, do_graph = True, do_overwrite = False,
     pad1 = 16, pad2 = 12, do_flush = 100, delay = 10, mode1 = DCV, mode2 = DCA,
     range_sel = 0, tstop = Finite 0, comment = [], gnuplot = GNUPLOT\<rparr>"

text \<open>
  The world of one run, apart from the acquisition loop: \<open>scan_g\<close> is \<open>%g\<close> of the C
  library's \<open>sscanf\<close> (the value stored, if any); \<open>float_of_double\<close> is the rounding of a
  finite double to \<open>float\<close>; \<open>file_exists\<close> is what \<open>access\<close> finds; \<open>answer\<close> is the
  character \<open>fgetc\<close> reads; then whether \<open>fopen\<close> and \<open>popen\<close> give a stream, what the bus
  answers to each driver call, the clock, what the two reading buffers hold before the first
  reading, and after how many naps of the final wait a key is hit (\<open>None\<close>: never).
\<close>

record world =
  scan_g :: "string \<Rightarrow> cfloat option"
  float_of_double :: "real \<Rightarrow> cfloat"
  file_exists :: bool
  answer :: int
  fopen_ok :: bool
  popen_ok :: bool
  open1 :: open_env
  open2 :: open_env
  setup1 :: int
  setup2 :: int
  time_start :: int
  t0 :: real
  buffer1_init :: string
  buffer2_init :: string
  time_stop :: int
  close1 :: int
  close2 :: int
  final_naps :: "nat option"

text \<open>One pass of the loop: the answers of the bus to the two readings, the clock
  (\<open>timeinfo\<close>, in seconds) and the key the terminal has ready, if any (what \<open>kbhit\<close> finds and
  \<open>readch\<close> returns).\<close>

record iter =
  rd1 :: "int \<times> string"
  rd2 :: "int \<times> string"
  now :: real
  kb :: "int option"

subsection \<open>\<open>main\<close>: decode and read the command line\<close>

text \<open>The body of the \<open>switch\<close>: \<open>Inr\<close> is \<open>continue\<close>, \<open>Inl\<close> is \<open>return\<close>. An option
  letter that takes an argument always has \<open>optarg\<close> set by \<open>GetOpt\<close>.\<close>

definition option_case :: "world \<Rightarrow> string list \<Rightarrow> int \<Rightarrow> string \<Rightarrow> config \<Rightarrow> config step" where
  "option_case w argv key arg cfg =
     (if key = ord (CHR ''h'') then ([Stderr Syntax_help], Inl (Exit 0))
      else if key = ord (CHR ''f'') then ([], Inr (cfg\<lparr>do_overwrite := True\<rparr>))
      else if key = ord (CHR ''n'') then ([], Inr (cfg\<lparr>do_graph := False\<rparr>))
      else if key = ord (CHR ''d'') then ([], Inr (cfg\<lparr>do_display := False\<rparr>))
      else if key = ord (CHR ''c'') then
        (if length (strclean arg) \<noteq> 0
         then (if length (strclean arg) < MAXLEN then ([], Inr (cfg\<lparr>comment := strclean arg\<rparr>))
               else ([], Inl Undefined_behaviour))
         else ([], Inr cfg))
      else if key = ord (CHR ''g'') then
        ([], Inr (case scan_s 80 arg of None \<Rightarrow> cfg | Some s \<Rightarrow> cfg\<lparr>gnuplot := s\<rparr>))
      else if key = ord (CHR ''w'') then
        ([], Inr (case scan_d 5 arg of None \<Rightarrow> cfg | Some v \<Rightarrow> cfg\<lparr>do_flush := v\<rparr>))
      else if key = ord (CHR ''a'') then
        (let cfg' = (case scan_d 5 arg of None \<Rightarrow> cfg | Some v \<Rightarrow> cfg\<lparr>pad1 := v\<rparr>)
         in if pad1 cfg' < 0 \<or> pad1 cfg' > 30 then ([Stdout Address_range], Inl (Exit 1))
            else ([], Inr cfg'))
      else if key = ord (CHR ''A'') then
        (let cfg' = (case scan_d 5 arg of None \<Rightarrow> cfg | Some v \<Rightarrow> cfg\<lparr>pad2 := v\<rparr>)
         in if pad2 cfg' < 0 \<or> pad2 cfg' > 30 then ([Stdout Address_range], Inl (Exit 1))
            else ([], Inr cfg'))
      else if key = ord (CHR ''t'') then
        (let cfg' = (case scan_d 5 arg of None \<Rightarrow> cfg | Some v \<Rightarrow> cfg\<lparr>delay := v\<rparr>)
         in if delay cfg' < 0 \<or> delay cfg' > 600 then ([Stdout Delay_range], Inl (Exit 1))
            else ([], Inr cfg'))
      else if key = ord (CHR ''T'') then
        (let cfg' = (case scan_g w arg of None \<Rightarrow> cfg | Some v \<Rightarrow> cfg\<lparr>tstop := v\<rparr>)
         in if flt (tstop cfg') (Finite 0.0) then ([Stdout Timeout_positive], Inl (Exit 1))
            else ([], Inr cfg'))
      else if key = ord (CHR ''m'') then
        (let cfg' = (case scan_d 5 arg of None \<Rightarrow> cfg | Some v \<Rightarrow> cfg\<lparr>mode1 := v\<rparr>)
         in if mode1 cfg' < 0 \<or> mode1 cfg' > 5 then ([Stdout Mode1_range], Inl (Exit 1))
            else ([], Inr cfg'))
      else if key = ord (CHR ''M'') then
        (let cfg' = (case scan_d 5 arg of None \<Rightarrow> cfg | Some v \<Rightarrow> cfg\<lparr>mode2 := v\<rparr>)
         in if mode2 cfg' < 0 \<or> mode2 cfg' > 5 then ([Stdout Mode2_range], Inl (Exit 1))
            else ([], Inr cfg'))
      else ([Stderr (For_help (argv ! 0))], Inl (Exit 1)))"

text \<open>
  The loop around \<open>GetOpt\<close> ends: every call that returns an option letter leaves less of the
  command line to read, measured by \<open>togo\<close>.
\<close>

definition rest :: "string list \<Rightarrow> nat \<Rightarrow> nat" where
  "rest argv k = sum_list (map (\<lambda>a. length a + 2) (drop k argv))"

definition togo :: "string list \<Rightarrow> getopt_state \<Rightarrow> nat" where
  "togo argv g = (case letP g of None \<Rightarrow> rest argv (optind g)
                  | Some l \<Rightarrow> rest argv (optind g + 1) + length l + 1)"

lemma rest_Suc: "k < length argv \<Longrightarrow> rest argv k = length (argv ! k) + 2 + rest argv (Suc k)"
  by (simp add: rest_def Cons_nth_drop_Suc [symmetric])

lemma rest_mono: "rest argv (Suc k) \<le> rest argv k"
proof (cases "k < length argv")
  case True then show ?thesis by (simp add: rest_Suc)
next
  case False then show ?thesis by (simp add: rest_def)
qed

lemma ord_nonneg: "0 \<le> ord c"
proof -
  have "ord c = int (of_char c)" by (simp add: ord_def of_nat_of_char)
  then show ?thesis by simp
qed

lemma GetOpt_togo:
  assumes "GetOpt argv opts g = (ev, key, g')" "key \<noteq> EOF" "key \<noteq> ord (CHR ''~'')"
  shows "togo argv g' < togo argv g"
proof (cases "optind g < length argv")
  case False
  with assms show ?thesis by (simp add: GetOpt_def gopEOF_def)
next
  case True
  have r0: "rest argv (optind g) = length (argv ! optind g) + 2 + rest argv (Suc (optind g))"
    using True by (rule rest_Suc)
  have r1: "rest argv (Suc (Suc (optind g))) \<le> rest argv (Suc (optind g))" by (rule rest_mono)
  show ?thesis
  proof (cases "letP g")
    case None
    show ?thesis
      using assms True r0 r1 None
      by (auto simp: GetOpt_def gopEOF_def gopError_def togo_def Let_def
          split: if_splits list.splits)
  next
    case (Some l)
    show ?thesis
      using assms True r0 r1 Some
      by (auto simp: GetOpt_def gopEOF_def gopError_def togo_def Let_def
          split: if_splits list.splits)
  qed
qed

lemma option_case_continue:
  "option_case w argv key arg cfg = (ev, Inr cfg') \<Longrightarrow> key \<noteq> ord (CHR ''~'')"
  by (auto simp: option_case_def ord_def)

function read_options ::
  "world \<Rightarrow> string list \<Rightarrow> getopt_state \<Rightarrow> config \<Rightarrow> (config \<times> getopt_state) step" where
  "read_options w argv g cfg =
     (case GetOpt argv ''hfnda:A:w:t:T:m:c:M:g:'' g of
        (ev, key, g') \<Rightarrow>
          if key = EOF then (ev, Inr (cfg, g'))
          else
            (case option_case w argv key (case optarg g' of None \<Rightarrow> [] | Some a \<Rightarrow> a) cfg of
               (ev', Inl out) \<Rightarrow> (ev @ ev', Inl out)
             | (ev', Inr cfg') \<Rightarrow>
                 (case read_options w argv g' cfg' of (ev'', r) \<Rightarrow> (ev @ ev' @ ev'', r))))"
  by pat_completeness auto
termination
  apply (relation "measure (\<lambda>(w, argv, g, cfg). togo argv g)")
   apply simp
  apply simp
  apply (metis GetOpt_togo option_case_continue)
  done

declare read_options.simps [simp del]

subsection \<open>\<open>main\<close>: prepare the output data file and gnuplot\<close>

text \<open>
  \<open>argv[optind]\<close> is the null pointer at \<open>optind = argc\<close>. When the file cannot be opened
  the source calls \<open>pclose(gp)\<close> before \<open>return ERR_FILE\<close>, and \<open>gp\<close> is still the null
  pointer there.
\<close>

definition prepare_file :: "world \<Rightarrow> string list \<Rightarrow> config \<Rightarrow> getopt_state \<Rightarrow> string step" where
  "prepare_file w argv cfg g =
     (if optind g > length argv then ([], Inl Undefined_behaviour)
      else if optind g = length argv
        then ([Stderr Syntax_help, Stderr Specify_datafile], Inl (Exit 1))
      else
        (let filename = argv ! optind g in
         if length filename \<ge> MAXLEN then ([], Inl Undefined_behaviour)
         else
           andthen
             (if file_exists w \<and> \<not> do_overwrite cfg
              then
                (if answer w = ord (CHR ''Y'') \<or> answer w = ord (CHR ''y'')
                 then ([Access filename, Stderr (File_exists filename), Fgetc_stdin], Inr ())
                 else ([Access filename, Stderr (File_exists filename), Fgetc_stdin],
                       Inl (Exit 1)))
              else ([Access filename], Inr ()))
             (\<lambda>_. if fopen_ok w then ([Fopen filename], Inr filename)
                  else ([Fopen filename, Stderr (Cannot_open filename)],
                        Inl Undefined_behaviour))))"

definition ylabel :: "int \<Rightarrow> string option" where
  "ylabel m = (if 0 \<le> m \<and> nat m < length ylabels then Some (ylabels ! nat m) else None)"

text \<open>\<open>popen\<close> and the display defaults; \<open>gp\<close> is null exactly when \<open>popen_ok\<close> is false.\<close>

definition start_gnuplot :: "world \<Rightarrow> config \<Rightarrow> string \<Rightarrow> config step" where
  "start_gnuplot w cfg filename =
     (let launch = Popen (gnuplot cfg) # (if popen_ok w then [] else [Stderr No_gnuplot]);
          cfg' = (if popen_ok w then cfg else cfg\<lparr>do_graph := False\<rparr>)
      in if do_graph cfg' then
           (case (ylabel (mode1 cfg'), ylabel (mode2 cfg')) of
              (Some l1, Some l2) \<Rightarrow>
                (launch @ [Fprintf_gp (Gp_style filename), Fprintf_gp (Gp_labels l1),
                           Fprintf_gp (Gp_y2label l2), Fflush_gp, Init_keyboard], Inr cfg')
            | _ \<Rightarrow> (launch, Inl Undefined_behaviour))
         else (launch @ [Init_keyboard], Inr cfg'))"

subsection \<open>\<open>main\<close>: open and set up the instruments, write the file header\<close>

text \<open>The way out on an instrument error before the file is closed: \<open>"Quit."\<close>,
  \<open>pclose(gp)\<close>, what the place adds (\<open>close_keyboard\<close> in the loop), \<open>return ERR_INST\<close>.\<close>

definition quit :: "world \<Rightarrow> event list \<Rightarrow> 'a step" where
  "quit w extra =
     (if popen_ok w then ([Stderr Quit, Pclose_gp] @ extra, Inl (Exit ERR_INST))
      else ([Stderr Quit], Inl Undefined_behaviour))"

definition open_instruments :: "world \<Rightarrow> config \<Rightarrow> (int \<times> int) step" where
  "open_instruments w cfg =
     (case s7150_open (pad1 cfg) (open1 w) of
        (ev1, dvm1) \<Rightarrow>
          (case s7150_open (pad2 cfg) (open2 w) of
             (ev2, dvm2) \<Rightarrow>
               if dvm1 = 0 \<or> dvm2 = 0 then andthen (ev1 @ ev2, Inr ()) (\<lambda>_. quit w [])
               else (ev1 @ ev2, Inr (dvm1, dvm2))))"

text \<open>
  \<open>delay = delay/2.0\<close>: the quotient is a double, stored in the \<open>int\<close>. Then
  \<open>10.0/delay\<close>, a double, is handed to the \<open>float\<close> parameter of \<open>s7150_setup\<close>, once for
  each instrument; the second call is not made when the first fails.
\<close>

definition halve :: "int \<Rightarrow> int" where
  "halve d = int_of_double (real_of_int d / 2.0)"

definition sampling_freq :: "world \<Rightarrow> int \<Rightarrow> cfloat" where
  "sampling_freq w d =
     (case fdiv 10.0 (real_of_int d) of Finite r \<Rightarrow> float_of_double w r | x \<Rightarrow> x)"

definition setup_instruments :: "world \<Rightarrow> config \<Rightarrow> int \<Rightarrow> int \<Rightarrow> config step" where
  "setup_instruments w cfg dvm1 dvm2 =
     (let cfg' = cfg\<lparr>delay := halve (delay cfg)\<rparr>;
          display = (if do_display cfg' then 1 else 0)
      in case s7150_setup dvm1 display (mode1 cfg') (range_sel cfg')
                (sampling_freq w (delay cfg')) (setup1 w) of
           (ev1, r1) \<Rightarrow>
             if r1 = 0 then andthen (ev1, Inr ()) (\<lambda>_. quit w [])
             else
               (case s7150_setup dvm2 display (mode2 cfg') (range_sel cfg')
                       (sampling_freq w (delay cfg')) (setup2 w) of
                  (ev2, r2) \<Rightarrow>
                    if r2 = 0 then andthen (ev1 @ ev2, Inr ()) (\<lambda>_. quit w [])
                    else (ev1 @ ev2, Inr cfg')))"

definition header :: "world \<Rightarrow> config \<Rightarrow> file_line list" where
  "header w cfg = [Hdr_program, Hdr_comment (comment cfg), Hdr_start (time_start w), Hdr_legend]"

definition write_header :: "world \<Rightarrow> config \<Rightarrow> string \<Rightarrow> unit step" where
  "write_header w cfg filename =
     ([Stdout (Summary (pad1 cfg) (pad2 cfg) filename (comment cfg) (delay cfg) (do_flush cfg)
                 (tstop cfg)),
       Time_call] @ map Fprintf_outfile (header w cfg) @ [Timeinfo], Inr ())"

subsection \<open>\<open>main\<close>: the acquisition loop\<close>

text \<open>
  The variables the loop changes: \<open>key\<close>, the counter \<open>loop\<close> (an \<open>unsigned long\<close>, 64 bits
  here) and the two reading buffers. In \<open>loop % do_flush\<close> the \<open>int\<close> is converted to
  \<open>unsigned long\<close>; a zero divisor is undefined.
\<close>

record vars =
  key :: int
  loop :: "64 word"
  buffer1 :: string
  buffer2 :: string

definition timed_out :: "config \<Rightarrow> real \<Rightarrow> bool" where
  "timed_out cfg t1 = (fgt (Finite t1) (tstop cfg) \<and> fgt (tstop cfg) (Finite 0.0))"

definition flush_due :: "config \<Rightarrow> 64 word \<Rightarrow> bool" where
  "flush_due cfg n = (n mod word_of_int (do_flush cfg) = 0)"

definition replot :: "config \<Rightarrow> string \<Rightarrow> event list step" where
  "replot cfg filename =
     (case (ylabel (mode1 cfg), ylabel (mode2 cfg)) of
        (Some l1, Some l2) \<Rightarrow>
          ([], Inr [Fprintf_gp (Gp_plot filename (pad1 cfg) l1 (pad2 cfg) l2), Fflush_gp])
      | _ \<Rightarrow> ([], Inl Undefined_behaviour))"

text \<open>The pass of the loop from \<open>t1 = ...\<close> on, once both readings are in the buffers
  \<open>b1\<close> and \<open>b2\<close>: status line, record, timeout, flush and plot, keyboard.\<close>

definition record_sample ::
  "world \<Rightarrow> config \<Rightarrow> string \<Rightarrow> vars \<Rightarrow> iter \<Rightarrow> string \<Rightarrow> string \<Rightarrow> vars step" where
  "record_sample w cfg filename v e b1 b2 =
     (let t1 = (now e - t0 w) / 60.0;
          n = loop v + 1;
          record = [Timeinfo, Stdout (Status n t1 (c_str b1) (c_str b2)),
                    Fprintf_outfile (Sample t1 (c_str b1) (c_str b2))];
          key1 = (if timed_out cfg t1 then ESC else key v)
      in if (word_of_int (do_flush cfg) :: 64 word) = 0
         then (record, Inl Undefined_behaviour)
         else
           andthen
             (if flush_due cfg n
              then (if do_graph cfg
                    then andthen (replot cfg filename)
                           (\<lambda>plot. (record @ Fflush_outfile # plot, Inr ()))
                    else (record @ [Fflush_outfile], Inr ()))
              else (record, Inr ()))
             (\<lambda>_. case kb e of
                    None \<Rightarrow>
                      ([Kbhit], Inr \<lparr>key = key1, loop = n, buffer1 = b1, buffer2 = b2\<rparr>)
                  | Some k \<Rightarrow>
                      ([Kbhit, Readch],
                       Inr \<lparr>key = k, loop = n, buffer1 = b1, buffer2 = b2\<rparr>)))"

text \<open>One pass: the two readings, the second only after the first came back without error.\<close>

definition iteration ::
  "world \<Rightarrow> config \<Rightarrow> string \<Rightarrow> int \<Rightarrow> int \<Rightarrow> vars \<Rightarrow> iter \<Rightarrow> vars step" where
  "iteration w cfg filename dvm1 dvm2 v e =
     andthen (s7150_read dvm1 (delay cfg) (buffer1 v) (rd1 e)) (\<lambda>(r1, b1).
       if r1 = 0 then quit w [Close_keyboard]
       else
         andthen (s7150_read dvm2 (delay cfg) (buffer2 v) (rd2 e)) (\<lambda>(r2, b2).
           if r2 = 0 then quit w [Close_keyboard]
           else record_sample w cfg filename v e b1 b2))"

definition stop_key :: "int \<Rightarrow> bool" where
  "stop_key k = (k = ord (CHR ''q'') \<or> k = ESC)"

text \<open>\<open>do ... while ((key != 'q') && (key != ESC))\<close>, one \<open>iter\<close> per pass.\<close>

fun acq_loop ::
  "world \<Rightarrow> config \<Rightarrow> string \<Rightarrow> int \<Rightarrow> int \<Rightarrow> vars \<Rightarrow> iter list \<Rightarrow> vars step" where
  "acq_loop w cfg filename dvm1 dvm2 v [] = ([], Inl Running)"
| "acq_loop w cfg filename dvm1 dvm2 v (e # es) =
     andthen (iteration w cfg filename dvm1 dvm2 v e) (\<lambda>v'.
       if \<not> stop_key (key v') then acq_loop w cfg filename dvm1 dvm2 v' es
       else ([], Inr v'))"

subsection \<open>\<open>main\<close>: after the loop\<close>

definition final_wait :: "world \<Rightarrow> event list \<times> outcome" where
  "final_wait w =
     (case final_naps w of
        None \<Rightarrow> ([Stdout Finished], Running)
      | Some n \<Rightarrow>
          (Stdout Finished # concat (replicate n [Kbhit, Usleep 100000])
             @ [Kbhit, Pclose_gp, Close_keyboard, Stdout Blank_lines], Exit 0))"

definition shutdown :: "world \<Rightarrow> config \<Rightarrow> string \<Rightarrow> int \<Rightarrow> int \<Rightarrow> event list \<times> outcome" where
  "shutdown w cfg filename dvm1 dvm2 =
     (let stop = [Time_call, Fprintf_outfile (Footer (time_stop w)), Fclose_outfile] in
      case s7150_close dvm1 (close1 w) of
        (ev1, r1) \<Rightarrow>
          if r1 = 0 then (stop @ ev1 @ [Stderr Quit], Exit ERR_INST)
          else
            (case s7150_close dvm2 (close2 w) of
               (ev2, r2) \<Rightarrow>
                 if r2 = 0 then (stop @ ev1 @ ev2 @ [Stderr Quit], Exit ERR_INST)
                 else if do_graph cfg then
                   (case replot cfg filename of
                      (_, Inl out) \<Rightarrow> (stop @ ev1 @ ev2, out)
                    | (_, Inr plot) \<Rightarrow>
                        (case final_wait w of
                           (evw, out) \<Rightarrow> (stop @ ev1 @ ev2 @ plot @ evw, out)))
                 else (stop @ ev1 @ ev2 @ [Close_keyboard, Stdout Blank_lines], Exit 0)))"

subsection \<open>\<open>main\<close>\<close>

text \<open>The part of \<open>main\<close> before the loop: what it hands to the loop is the configuration
  (with the delay halved and the graph switched off if \<open>popen\<close> gave no stream), the file name and
  the two descriptors.\<close>

definition startup :: "world \<Rightarrow> string list \<Rightarrow> (config \<times> string \<times> int \<times> int) step" where
  "startup w argv =
     andthen ([Stderr Disclaimer], Inr ()) (\<lambda>_.
     andthen (read_options w argv \<lparr>optind = 1, letP = None, optarg = None\<rparr> defaults)
       (\<lambda>(cfg, g).
     andthen (prepare_file w argv cfg g) (\<lambda>filename.
     andthen (start_gnuplot w cfg filename) (\<lambda>cfg.
     andthen (open_instruments w cfg) (\<lambda>(dvm1, dvm2).
     andthen (setup_instruments w cfg dvm1 dvm2) (\<lambda>cfg.
     andthen (write_header w cfg filename) (\<lambda>_.
       ([], Inr (cfg, filename, dvm1, dvm2)))))))))"

text \<open>\<open>key = 0\<close> and \<open>loop = 0L\<close> before the loop. \<open>buffer1\<close> and \<open>buffer2\<close> are
  arrays of \<open>MAXLEN\<close> characters that hold what they happen to hold: the characters the
  world names, cut or filled up to that length.\<close>

definition buffer :: "string \<Rightarrow> string" where
  "buffer s = take MAXLEN (s @ replicate MAXLEN NUL)"

definition vars0 :: "world \<Rightarrow> vars" where
  "vars0 w = \<lparr>key = 0, loop = 0, buffer1 = buffer (buffer1_init w),
               buffer2 = buffer (buffer2_init w)\<rparr>"

definition acquire ::
  "world \<Rightarrow> config \<Rightarrow> string \<Rightarrow> int \<Rightarrow> int \<Rightarrow> iter list \<Rightarrow> event list \<times> outcome" where
  "acquire w cfg filename dvm1 dvm2 its =
     (case acq_loop w cfg filename dvm1 dvm2 (vars0 w) its of
        (ev, Inl out) \<Rightarrow> (ev, out)
      | (ev, Inr v) \<Rightarrow>
          (case shutdown w cfg filename dvm1 dvm2 of (ev', out) \<Rightarrow> (ev @ ev', out)))"

definition main :: "world \<Rightarrow> string list \<Rightarrow> iter list \<Rightarrow> event list \<times> outcome" where
  "main w argv its =
     (case startup w argv of
        (ev, Inl out) \<Rightarrow> (ev, out)
      | (ev, Inr (cfg, filename, dvm1, dvm2)) \<Rightarrow>
          (case acquire w cfg filename dvm1 dvm2 its of (ev', out) \<Rightarrow> (ev @ ev', out)))"

subsection \<open>The process around \<open>main\<close>\<close>

text \<open>
  \<open>main\<close> is called by the C start-up code, and \<open>return c\<close> from it is \<open>exit(c)\<close>: every
  stream that is still open is flushed and closed before the process ends. The source has
  no \<open>exit\<close> and no \<open>atexit\<close> of its own, so this is all that happens there;
  \<open>Exit_closes_streams\<close> is that step.
\<close>

definition at_exit :: "event list \<times> outcome \<Rightarrow> event list \<times> outcome" where
  "at_exit r = (case snd r of Exit c \<Rightarrow> (fst r @ [Exit_closes_streams], Exit c) | _ \<Rightarrow> r)"

text \<open>
  \<open>popen\<close> starts a shell that is to run the gnuplot command and returns the writing end of a
  pipe to it; it returns a stream also when the shell then finds no such program, or when
  gnuplot ends during the run. \<open>fprintf (gp, ...)\<close> fills the buffer of the stream (the lines
  are short), and \<open>fflush (gp)\<close> writes it to the pipe. Writing to a pipe that nobody reads
  raises \<open>SIGPIPE\<close>, which the source neither ignores nor handles (it has no \<open>signal\<close> and no
  \<open>sigaction\<close>): the process is killed in that \<open>fflush\<close>. \<open>upto_flush n ev\<close> is the trace up
  to and including the \<open>fflush (gp)\<close> numbered \<open>n\<close> (from 0), if \<open>ev\<close> has that many.
\<close>

fun upto_flush :: "nat \<Rightarrow> event list \<Rightarrow> event list option" where
  "upto_flush n [] = None"
| "upto_flush n (e # es) =
     (case e of
        Fflush_gp \<Rightarrow>
          (case n of 0 \<Rightarrow> Some [e] | Suc m \<Rightarrow> map_option ((#) e) (upto_flush m es))
      | _ \<Rightarrow> map_option ((#) e) (upto_flush n es))"

text \<open>How the process ends: \<open>main\<close> ran to the outcome named, or the process was killed by
  \<open>SIGPIPE\<close>.\<close>

datatype fate = Ran outcome | Killed_by_sigpipe

text \<open>
  The run of the program as a process. \<open>k\<close> is what becomes of the reader of the pipe:
  \<open>None\<close> when gnuplot reads all that is sent, \<open>Some n\<close> when \<open>n\<close> flushes reach a reader and
  the next one finds none (\<open>Some 0\<close>: the reader has gone before the first flush).
\<close>

definition process :: "nat option \<Rightarrow> world \<Rightarrow> string list \<Rightarrow> iter list \<Rightarrow> event list \<times> fate" where
  "process k w argv its =
     (let r = at_exit (main w argv its) in
      case (case k of None \<Rightarrow> None | Some n \<Rightarrow> upto_flush n (fst r)) of
        Some ev \<Rightarrow> (ev, Killed_by_sigpipe)
      | None \<Rightarrow> (fst r, Ran (snd r)))"

text \<open>Whether the output file is open after a trace, when it was open (\<open>s\<close>) before it.\<close>

fun outfile_open :: "world \<Rightarrow> bool \<Rightarrow> event list \<Rightarrow> bool" where
  "outfile_open w s [] = s"
| "outfile_open w s (Fopen f # es) = outfile_open w (fopen_ok w) es"
| "outfile_open w s (Fclose_outfile # es) = outfile_open w False es"
| "outfile_open w s (Exit_closes_streams # es) = outfile_open w False es"
| "outfile_open w s (e # es) = outfile_open w s es"

section \<open>Example runs\<close>

text \<open>
  A world in which everything works: both instruments answer, the file can be written,
  gnuplot starts; the instruments send 15 characters and a CR. The variations below change one
  answer each.
\<close>

definition volts :: string where "volts = ''+1.23456E+0 VDC'' @ [CR]"
definition amps :: string where "amps = ''+0.50000E-3 ADC'' @ [CR]"
definition blank :: string where "blank = replicate 90 (CHR ''x'')"

definition bench :: world where
  "bench = \<lparr>scan_g = (\<lambda>s. None), float_of_double = Finite, file_exists = False, answer = 0,
     fopen_ok = True, popen_ok = True,
     open1 = \<lparr>dev = 16, sta_clear = 0x100, sta_conf = 0x100\<rparr>,
     open2 = \<lparr>dev = 17, sta_clear = 0x100, sta_conf = 0x100\<rparr>,
     setup1 = 0x100, setup2 = 0x100, time_start = 1000, t0 = 1000,
     buffer1_init = blank, buffer2_init = blank,
     time_stop = 1060, close1 = 0x100, close2 = 0x100, final_naps = Some 1\<rparr>"

text \<open>A pass at clock \<open>t\<close> in which both instruments answer and the terminal has \<open>k\<close>.\<close>

definition pass :: "real \<Rightarrow> int option \<Rightarrow> iter" where
  "pass t k = \<lparr>rd1 = (0x2100, volts), rd2 = (0x2100, amps), now = t, kb = k\<rparr>"

definition args_t7 :: "string list" where
  "args_t7 = [''s7150duo'', ''-w'', ''2'', ''-t'', ''7'', ''out.dat'']"

definition cfg_t7 :: config where
  "cfg_t7 = defaults\<lparr>do_flush := 2, delay := 7\<rparr>"

definition its_t7 :: "iter list" where
  "its_t7 = [pass 1006 None, pass 1012 (Some 113)]"

definition run_t7 :: config where
  "run_t7 = defaults\<lparr>do_flush := 2, delay := 3\<rparr>"

definition args_w1 :: "string list" where
  "args_w1 = [''s7150duo'', ''-w'', ''1'', ''out.dat'']"

definition its_fail2 :: "iter list" where
  "its_fail2 = [pass 1006 None, (pass 1012 None)\<lparr>rd2 := (0xC100, [])\<rparr>]"

definition no_pipe :: world where
  "no_pipe = bench\<lparr>popen_ok := False\<rparr>"

definition args_plain :: "string list" where
  "args_plain = [''s7150duo'', ''out.dat'']"

definition its_esc :: "iter list" where
  "its_esc = [pass 1006 None, pass 1012 (Some 27)]"

definition args_w0 :: "string list" where
  "args_w0 = [''s7150duo'', ''-w'', ''0'', ''out.dat'']"

definition args_t1 :: "string list" where
  "args_t1 = [''s7150duo'', ''-t'', ''1'', ''out.dat'']"


section \<open>Views of a trace and basic facts\<close>

text \<open>
  What a claim looks at in a trace: the lines written to the output file, the lines sent to
  gnuplot, the calls of \<open>s7150_read\<close> with their arguments. \<open>passes\<close> lists the passes of
  the acquisition loop one by one, each with its events and its result, and \<open>loop_end\<close> reads
  off how the loop ended; \<open>acq_loop_events\<close> and \<open>acq_loop_result\<close> below show that
  together they are the loop.
\<close>

text \<open>The plot command of the loop and of the end of the run, and the events that make
  data durable or redraw the plot.\<close>

definition plot_line :: "config \<Rightarrow> string \<Rightarrow> gp_line" where
  "plot_line cfg fn =
     Gp_plot fn (pad1 cfg) (ylabels ! nat (mode1 cfg)) (pad2 cfg) (ylabels ! nat (mode2 cfg))"

fun durable :: "event \<Rightarrow> bool" where
  "durable Fflush_outfile = True"
| "durable Fclose_outfile = True"
| "durable (Fprintf_gp (Gp_plot _ _ _ _ _)) = True"
| "durable _ = False"

fun file_lines :: "event list \<Rightarrow> file_line list" where
  "file_lines [] = []"
| "file_lines (Fprintf_outfile l # es) = l # file_lines es"
| "file_lines (_ # es) = file_lines es"

fun gp_lines :: "event list \<Rightarrow> gp_line list" where
  "gp_lines [] = []"
| "gp_lines (Fprintf_gp l # es) = l # gp_lines es"
| "gp_lines (_ # es) = gp_lines es"

fun read_calls :: "event list \<Rightarrow> (int \<times> int) list" where
  "read_calls [] = []"
| "read_calls (Call_s7150_read dvm d # es) = (dvm, d) # read_calls es"
| "read_calls (_ # es) = read_calls es"

lemma file_lines_append [simp]: "file_lines (xs @ ys) = file_lines xs @ file_lines ys"
  by (induction xs rule: file_lines.induct) auto

lemma gp_lines_append [simp]: "gp_lines (xs @ ys) = gp_lines xs @ gp_lines ys"
  by (induction xs rule: gp_lines.induct) auto

lemma read_calls_append [simp]: "read_calls (xs @ ys) = read_calls xs @ read_calls ys"
  by (induction xs rule: read_calls.induct) auto

lemma andthen_Inl [simp]: "andthen (ev, Inl out) f = (ev, Inl out)"
  by (simp add: andthen_def)

lemma andthen_Inr [simp]: "andthen (ev, Inr x) f = (ev @ fst (f x), snd (f x))"
  by (simp add: andthen_def split: prod.splits)

lemma andthen_eq_Inl:
  "(andthen m f = (ev, Inl out)) =
     (m = (ev, Inl out) \<or> (\<exists>ev1 x ev2. m = (ev1, Inr x) \<and> f x = (ev2, Inl out) \<and> ev = ev1 @ ev2))"
  by (cases m) (auto simp: andthen_def split: sum.splits prod.splits)

lemma fst_andthen:
  "fst (andthen m f) = fst m @ (case snd m of Inl _ \<Rightarrow> [] | Inr x \<Rightarrow> fst (f x))"
  by (cases m) (auto simp: andthen_def split: sum.splits prod.splits)

lemma andthen_eq_Inr:
  "(andthen m f = (ev, Inr y)) =
     (\<exists>ev1 x ev2. m = (ev1, Inr x) \<and> f x = (ev2, Inr y) \<and> ev = ev1 @ ev2)"
  by (cases m) (auto simp: andthen_def split: sum.splits prod.splits)

text \<open>Events on the terminal only.\<close>

fun console :: "event \<Rightarrow> bool" where
  "console (Stderr _) = True"
| "console (Stdout _) = True"
| "console _ = False"

lemma GetOpt_console: "list_all console (fst (GetOpt argv opts g))"
  by (auto simp: GetOpt_def gopEOF_def gopError_def Let_def split: option.splits list.splits sum.splits)

lemma option_case_console: "list_all console (fst (option_case w argv k a cfg))"
  by (auto simp: option_case_def Let_def)

lemma read_options_console: "list_all console (fst (read_options w argv g cfg))"
proof (induction w argv g cfg rule: read_options.induct)
  case (1 w argv g cfg)
  obtain ev k g' where G: "GetOpt argv ''hfnda:A:w:t:T:m:c:M:g:'' g = (ev, k, g')"
    by (cases "GetOpt argv ''hfnda:A:w:t:T:m:c:M:g:'' g") auto
  have c1: "list_all console ev" using GetOpt_console [of argv "''hfnda:A:w:t:T:m:c:M:g:''" g] G by simp
  show ?case
  proof (cases "k = EOF")
    case True
    with G c1 show ?thesis by (simp add: read_options.simps [of w argv g cfg])
  next
    case False
    obtain ev' r where O: "option_case w argv k (case optarg g' of None \<Rightarrow> [] | Some a \<Rightarrow> a) cfg = (ev', r)"
      by (cases "option_case w argv k (case optarg g' of None \<Rightarrow> [] | Some a \<Rightarrow> a) cfg") auto
    have c2: "list_all console ev'"
      using option_case_console [of w argv k "(case optarg g' of None \<Rightarrow> [] | Some a \<Rightarrow> a)" cfg] O by simp
    show ?thesis
    proof (cases r)
      case (Inl out)
      with G False O c1 c2 show ?thesis by (simp add: read_options.simps [of w argv g cfg])
    next
      case (Inr cfg')
      have "list_all console (fst (read_options w argv g' cfg'))"
        using "1.IH" [OF G [symmetric] refl False O [symmetric] Inr] .
      with G False O c1 c2 Inr show ?thesis
        by (auto simp: read_options.simps [of w argv g cfg] split: prod.splits)
    qed
  qed
qed

lemma read_options_invariant:
  assumes step: "\<And>w argv k a c ev c'. P c \<Longrightarrow> option_case w argv k a c = (ev, Inr c') \<Longrightarrow> P c'"
  shows "P cfg \<Longrightarrow> read_options w argv g cfg = (evs, Inr (cfg', g')) \<Longrightarrow> P cfg'"
proof (induction w argv g cfg arbitrary: evs rule: read_options.induct)
  case (1 w argv g cfg)
  obtain ev k g1 where G: "GetOpt argv ''hfnda:A:w:t:T:m:c:M:g:'' g = (ev, k, g1)"
    by (cases "GetOpt argv ''hfnda:A:w:t:T:m:c:M:g:'' g") auto
  show ?case
  proof (cases "k = EOF")
    case True
    with G "1.prems" show ?thesis by (simp add: read_options.simps [of w argv g cfg])
  next
    case False
    obtain ev' r where O: "option_case w argv k (case optarg g1 of None \<Rightarrow> [] | Some a \<Rightarrow> a) cfg = (ev', r)"
      by (cases "option_case w argv k (case optarg g1 of None \<Rightarrow> [] | Some a \<Rightarrow> a) cfg") auto
    show ?thesis
    proof (cases r)
      case (Inl out)
      with G False O "1.prems" show ?thesis by (simp add: read_options.simps [of w argv g cfg])
    next
      case (Inr c1)
      have P1: "P c1" using "1.prems"(1) O Inr step by blast
      obtain ev2 where R: "read_options w argv g1 c1 = (ev2, Inr (cfg', g'))"
        using "1.prems"(2) G False O Inr
        by (auto simp: read_options.simps [of w argv g cfg] split: prod.splits)
      show ?thesis
        using "1.IH" [OF G [symmetric] refl False O [symmetric] Inr P1 R] .
    qed
  qed
qed

fun passes ::
  "world \<Rightarrow> config \<Rightarrow> string \<Rightarrow> int \<Rightarrow> int \<Rightarrow> vars \<Rightarrow> iter list \<Rightarrow> vars step list" where
  "passes w cfg filename dvm1 dvm2 v [] = []"
| "passes w cfg filename dvm1 dvm2 v (e # es) =
     iteration w cfg filename dvm1 dvm2 v e
       # (case snd (iteration w cfg filename dvm1 dvm2 v e) of
            Inl _ \<Rightarrow> []
          | Inr v' \<Rightarrow> if \<not> stop_key (key v') then passes w cfg filename dvm1 dvm2 v' es else [])"

definition loop_end :: "vars step list \<Rightarrow> outcome + vars" where
  "loop_end ps =
     (if ps = [] then Inl Running
      else case snd (last ps) of
             Inl out \<Rightarrow> Inl out
           | Inr v \<Rightarrow> if stop_key (key v) then Inr v else Inl Running)"

lemma acq_loop_events:
  "fst (acq_loop w cfg fn d1 d2 v its) = concat (map fst (passes w cfg fn d1 d2 v its))"
proof (induction its arbitrary: v)
  case Nil
  show ?case by simp
next
  case (Cons e es)
  show ?case
  proof (cases "iteration w cfg fn d1 d2 v e")
    case (Pair ev r)
    then show ?thesis using Cons.IH by (cases r) (auto simp: fst_andthen)
  qed
qed

lemma acq_loop_result:
  "snd (acq_loop w cfg fn d1 d2 v its) = loop_end (passes w cfg fn d1 d2 v its)"
proof (induction its arbitrary: v)
  case Nil
  show ?case by (simp add: loop_end_def)
next
  case (Cons e es)
  show ?case
  proof (cases "iteration w cfg fn d1 d2 v e")
    case (Pair ev r)
    show ?thesis
    proof (cases r)
      case (Inl out)
      with Pair show ?thesis by (simp add: loop_end_def)
    next
      case (Inr v')
      show ?thesis
      proof (cases "stop_key (key v')")
        case True
        with Pair Inr show ?thesis by (simp add: loop_end_def)
      next
        case False
        with Pair Inr Cons.IH [of v'] show ?thesis
          by (cases es) (auto simp: loop_end_def)
      qed
    qed
  qed
qed

lemma passes_length: "length (passes w cfg fn d1 d2 v its) \<le> length its"
  by (induction its arbitrary: v) (auto split: sum.splits)

lemma floor_half: "\<lfloor>real_of_int d / 2\<rfloor> = d div 2"
  using floor_divide_of_int_eq [of d 2, where ?'a = real] by simp

lemma halve_nonneg: "0 \<le> d \<Longrightarrow> halve d = d div 2"
  by (simp add: halve_def int_of_double_def floor_half)

lemma halve_neg: "d < 0 \<Longrightarrow> halve d = - ((- d) div 2)"
proof -
  assume "d < 0"
  then have "halve d = \<lceil>real_of_int d / 2\<rceil>" by (simp add: halve_def int_of_double_def)
  also have "\<dots> = - \<lfloor>real_of_int (- d) / 2\<rfloor>" by (simp add: ceiling_def)
  also have "\<dots> = - ((- d) div 2)" by (simp only: floor_half)
  finally show ?thesis .
qed

lemma c_str_append_NUL: "c_str (xs @ NUL # ys) = c_str xs"
  by (induction xs) (auto simp: c_str_def)

lemma c_str_no_NUL: "NUL \<notin> set xs \<Longrightarrow> c_str xs = xs"
  by (induction xs) (auto simp: c_str_def)

text \<open>The buffer after a reading without error.\<close>

lemma stored:
  assumes "got \<noteq> []" "length got \<le> length result"
  shows "(got @ drop (length got) result)[length got - 1 := NUL]
           = butlast got @ NUL # drop (length got) result"
proof -
  from assms(1) obtain xs x where g: "got = xs @ [x]" by (metis rev_exhaust)
  show ?thesis by (simp add: g list_update_append)
qed

lemma s7150_read_events:
  "file_lines (fst (s7150_read dvm d buf bus)) = []
   \<and> gp_lines (fst (s7150_read dvm d buf bus)) = []
   \<and> read_calls (fst (s7150_read dvm d buf bus)) = [(dvm, d)]
   \<and> Fflush_outfile \<notin> set (fst (s7150_read dvm d buf bus))
   \<and> Fclose_outfile \<notin> set (fst (s7150_read dvm d buf bus))"
  by (simp add: s7150_read_def Let_def)

lemma s7150_read_cases:
  obtains (ub) ev where "s7150_read dvm d buf bus = (ev, Inl Undefined_behaviour)"
  | (err) ev b where "s7150_read dvm d buf bus = (ev, Inr (0, b))" "fst bus AND ERR \<noteq> 0"
      "Stderr Read_error \<in> set ev"
  | (ok) ev b where "s7150_read dvm d buf bus = (ev, Inr (1, b))" "fst bus AND ERR = 0"
  by (cases "s7150_read dvm d buf bus") (auto simp: s7150_read_def Let_def split: if_splits)

definition sample :: "world \<Rightarrow> iter \<Rightarrow> vars \<Rightarrow> file_line" where
  "sample w e v = Sample ((now e - t0 w) / 60) (c_str (buffer1 v)) (c_str (buffer2 v))"

lemma replot_cases:
  obtains (ub) "replot cfg fn = ([], Inl Undefined_behaviour)"
  | (ok) l1 l2 where
      "replot cfg fn = ([], Inr [Fprintf_gp (Gp_plot fn (pad1 cfg) l1 (pad2 cfg) l2), Fflush_gp])"
  by (cases "ylabel (mode1 cfg)"; cases "ylabel (mode2 cfg)") (auto simp: replot_def)

lemma record_sample_Inr:
  assumes "record_sample w cfg fn v e b1 b2 = (ev, Inr v')"
  shows "loop v' = loop v + 1 \<and> buffer1 v' = b1 \<and> buffer2 v' = b2
    \<and> file_lines ev = [sample w e v']
    \<and> read_calls ev = []
    \<and> (word_of_int (do_flush cfg) :: 64 word) \<noteq> 0
    \<and> (Fflush_outfile \<in> set ev) = flush_due cfg (loop v + 1)
    \<and> (gp_lines ev \<noteq> []) = (do_graph cfg \<and> flush_due cfg (loop v + 1))
    \<and> key v' = (case kb e of Some k \<Rightarrow> k
                   | None \<Rightarrow> if timed_out cfg ((now e - t0 w) / 60) then ESC else key v)
    \<and> Fclose_outfile \<notin> set ev"
proof (cases rule: replot_cases [of cfg fn])
  case ub
  with assms show ?thesis
    by (auto simp: record_sample_def Let_def sample_def split: if_splits option.splits)
next
  case (ok l1 l2)
  with assms show ?thesis
    by (auto simp: record_sample_def Let_def sample_def split: if_splits option.splits)
qed

lemma record_sample_Inl:
  assumes "record_sample w cfg fn v e b1 b2 = (ev, Inl out)"
  shows "out = Undefined_behaviour"
proof (cases rule: replot_cases [of cfg fn])
  case ub
  with assms show ?thesis
    by (auto simp: record_sample_def Let_def sample_def split: if_splits option.splits)
next
  case (ok l1 l2)
  with assms show ?thesis
    by (auto simp: record_sample_def Let_def sample_def split: if_splits option.splits)
qed

lemma record_sample_read_calls: "read_calls (fst (record_sample w cfg fn v e b1 b2)) = []"
proof (cases rule: replot_cases [of cfg fn])
  case ub
  then show ?thesis
    by (auto simp: record_sample_def Let_def sample_def split: if_splits option.splits)
next
  case (ok l1 l2)
  then show ?thesis
    by (auto simp: record_sample_def Let_def sample_def split: if_splits option.splits)
qed

text \<open>The three ways a pass of the loop can go.\<close>

lemma iteration_read_error:
  assumes "popen_ok w" "file_lines ev = []" "gp_lines ev = []" "Fflush_outfile \<notin> set ev"
    "Fclose_outfile \<notin> set ev" "Stderr Read_error \<in> set ev"
  shows "file_lines (ev @ fst (quit w [Close_keyboard] :: vars step)) = []
     \<and> gp_lines (ev @ fst (quit w [Close_keyboard] :: vars step)) = []
     \<and> Fflush_outfile \<notin> set (ev @ fst (quit w [Close_keyboard] :: vars step))
     \<and> Fclose_outfile \<notin> set (ev @ fst (quit w [Close_keyboard] :: vars step))
     \<and> Stderr Read_error \<in> set (ev @ fst (quit w [Close_keyboard] :: vars step))
     \<and> snd (quit w [Close_keyboard] :: vars step) = Inl (Exit ERR_INST)"
  using assms by (simp add: quit_def)

lemma iteration_cases:
  obtains (ub) ev where "iteration w cfg fn d1 d2 v e = (ev, Inl Undefined_behaviour)"
  | (err) ev where "iteration w cfg fn d1 d2 v e = (ev, Inl (Exit ERR_INST))"
      "fst (rd1 e) AND ERR \<noteq> 0 \<or> fst (rd2 e) AND ERR \<noteq> 0"
      "Stderr Read_error \<in> set ev" "file_lines ev = []" "gp_lines ev = []"
      "Fflush_outfile \<notin> set ev" "Fclose_outfile \<notin> set ev"
  | (ok) ev1 b1 ev2 b2 ev3 v' where
      "s7150_read d1 (delay cfg) (buffer1 v) (rd1 e) = (ev1, Inr (1, b1))"
      "s7150_read d2 (delay cfg) (buffer2 v) (rd2 e) = (ev2, Inr (1, b2))"
      "record_sample w cfg fn v e b1 b2 = (ev3, Inr v')"
      "iteration w cfg fn d1 d2 v e = (ev1 @ ev2 @ ev3, Inr v')"
      "fst (rd1 e) AND ERR = 0" "fst (rd2 e) AND ERR = 0"
proof (cases rule: s7150_read_cases [of d1 "delay cfg" "buffer1 v" "rd1 e"])
  case (ub ev)
  then have "iteration w cfg fn d1 d2 v e = (ev, Inl Undefined_behaviour)"
    by (simp add: iteration_def)
  then show ?thesis by (rule that(1))
next
  case (err ev b)
  have ev: "file_lines ev = []" "gp_lines ev = []" "Fflush_outfile \<notin> set ev" "Fclose_outfile \<notin> set ev"
    using s7150_read_events [of d1 "delay cfg" "buffer1 v" "rd1 e"] err(1) by simp_all
  have it: "iteration w cfg fn d1 d2 v e
              = (ev @ fst (quit w [Close_keyboard] :: vars step), snd (quit w [Close_keyboard] :: vars step))"
    using err(1) by (simp add: iteration_def)
  show ?thesis
  proof (cases "popen_ok w")
    case True
    from iteration_read_error [OF True ev err(3)] it err(2) show ?thesis
      by (intro that(2) [of "ev @ fst (quit w [Close_keyboard] :: vars step)"]) simp_all
  next
    case False
    with it show ?thesis by (intro that(1) [of "ev @ [Stderr Quit]"]) (simp add: quit_def)
  qed
next
  case (ok ev1 b1)
  note ok1 = ok
  have ev1: "file_lines ev1 = []" "gp_lines ev1 = []" "Fflush_outfile \<notin> set ev1" "Fclose_outfile \<notin> set ev1"
    using s7150_read_events [of d1 "delay cfg" "buffer1 v" "rd1 e"] ok1(1) by simp_all
  show ?thesis
  proof (cases rule: s7150_read_cases [of d2 "delay cfg" "buffer2 v" "rd2 e"])
    case (ub ev)
    with ok1 have "iteration w cfg fn d1 d2 v e = (ev1 @ ev, Inl Undefined_behaviour)"
      by (simp add: iteration_def)
    then show ?thesis by (rule that(1))
  next
    case (err ev b)
    have ev: "file_lines (ev1 @ ev) = []" "gp_lines (ev1 @ ev) = []"
      "Fflush_outfile \<notin> set (ev1 @ ev)" "Fclose_outfile \<notin> set (ev1 @ ev)"
      using s7150_read_events [of d2 "delay cfg" "buffer2 v" "rd2 e"] err(1) ev1 by simp_all
    have re: "Stderr Read_error \<in> set (ev1 @ ev)" using err(3) by simp
    have it: "iteration w cfg fn d1 d2 v e
              = ((ev1 @ ev) @ fst (quit w [Close_keyboard] :: vars step),
                 snd (quit w [Close_keyboard] :: vars step))"
      using err(1) ok1(1) by (simp add: iteration_def)
    show ?thesis
    proof (cases "popen_ok w")
      case True
      from iteration_read_error [OF True ev re] it err(2) show ?thesis
        by (intro that(2) [of "(ev1 @ ev) @ fst (quit w [Close_keyboard] :: vars step)"]) simp_all
    next
      case False
      with it show ?thesis by (intro that(1) [of "(ev1 @ ev) @ [Stderr Quit]"]) (simp add: quit_def)
    qed
  next
    case (ok ev2 b2)
    note ok2 = ok
    show ?thesis
    proof (cases "record_sample w cfg fn v e b1 b2")
      case (Pair ev3 r)
      show ?thesis
      proof (cases r)
        case (Inl out)
        with Pair have "out = Undefined_behaviour" by (auto dest: record_sample_Inl)
        with Pair Inl ok1 ok2 have "iteration w cfg fn d1 d2 v e = (ev1 @ ev2 @ ev3, Inl Undefined_behaviour)"
          by (simp add: iteration_def)
        then show ?thesis by (rule that(1))
      next
        case (Inr v')
        with Pair ok1 ok2 have "iteration w cfg fn d1 d2 v e = (ev1 @ ev2 @ ev3, Inr v')"
          by (simp add: iteration_def)
        with Pair Inr ok1 ok2 show ?thesis by (intro that(3)) simp_all
      qed
    qed
  qed
qed

fun hush :: "event \<Rightarrow> bool" where
  "hush (Fprintf_outfile _) = False"
| "hush (Fprintf_gp _) = False"
| "hush Fflush_outfile = False"
| "hush Fclose_outfile = False"
| "hush (Call_s7150_read _ _) = False"
| "hush (Usleep _) = False"
| "hush _ = True"

fun hushg :: "event \<Rightarrow> bool" where
  "hushg (Fprintf_gp _) = True"
| "hushg e = hush e"

lemma hush_filters:
  "list_all hush ev \<Longrightarrow>
     file_lines ev = [] \<and> gp_lines ev = [] \<and> read_calls ev = []
     \<and> Fflush_outfile \<notin> set ev \<and> Fclose_outfile \<notin> set ev \<and> (\<forall>u. Usleep u \<notin> set ev)"
  by (induction ev rule: file_lines.induct) auto

lemma hushg_filters:
  "list_all hushg ev \<Longrightarrow>
     file_lines ev = [] \<and> read_calls ev = []
     \<and> Fflush_outfile \<notin> set ev \<and> Fclose_outfile \<notin> set ev \<and> (\<forall>u. Usleep u \<notin> set ev)"
  by (induction ev rule: file_lines.induct) auto

lemma hush_hushg: "list_all hush ev \<Longrightarrow> list_all hushg ev"
  by (induction ev rule: file_lines.induct) auto

lemma console_hush: "list_all console ev \<Longrightarrow> list_all hush ev"
  by (induction ev rule: file_lines.induct) auto

lemma read_options_hush: "list_all hush (fst (read_options w argv g cfg))"
  by (rule console_hush) (rule read_options_console)

lemma prepare_file_hush: "list_all hush (fst (prepare_file w argv cfg g))"
  by (simp add: prepare_file_def Let_def)

lemma start_gnuplot_hush:
  "list_all hushg (fst (start_gnuplot w cfg fn))
   \<and> (\<not> popen_ok w \<longrightarrow> list_all hush (fst (start_gnuplot w cfg fn)))"
  by (auto simp: start_gnuplot_def Let_def split: option.splits)

lemma start_gnuplot_Inr:
  "start_gnuplot w cfg fn = (ev, Inr cfg') \<Longrightarrow>
     cfg' = cfg\<lparr>do_graph := (do_graph cfg \<and> popen_ok w)\<rparr>"
  by (auto simp: start_gnuplot_def Let_def split: option.splits if_splits)

lemma s7150_open_hush: "list_all hush (fst (s7150_open pad env))"
  by (simp add: s7150_open_def Let_def)

lemma open_instruments_hush: "list_all hush (fst (open_instruments w cfg))"
  using s7150_open_hush [of "pad1 cfg" "open1 w"] s7150_open_hush [of "pad2 cfg" "open2 w"]
  by (auto simp: open_instruments_def quit_def split: prod.splits)

lemma s7150_setup_hush: "list_all hush (fst (s7150_setup dvm dis func rng f sta))"
  by (simp add: s7150_setup_def Let_def)

lemma setup_instruments_hush: "list_all hush (fst (setup_instruments w cfg d1 d2))"
proof -
  define dis :: int where "dis = (if do_display cfg then 1 else 0)"
  define f where "f = sampling_freq w (halve (delay cfg))"
  obtain ev1 r1 where s1: "s7150_setup d1 dis (mode1 cfg) (range_sel cfg) f (setup1 w) = (ev1, r1)"
    by (cases "s7150_setup d1 dis (mode1 cfg) (range_sel cfg) f (setup1 w)") auto
  obtain ev2 r2 where s2: "s7150_setup d2 dis (mode2 cfg) (range_sel cfg) f (setup2 w) = (ev2, r2)"
    by (cases "s7150_setup d2 dis (mode2 cfg) (range_sel cfg) f (setup2 w)") auto
  have h1: "list_all hush ev1"
    using s7150_setup_hush [of d1 dis "mode1 cfg" "range_sel cfg" f "setup1 w"] s1 by simp
  have h2: "list_all hush ev2"
    using s7150_setup_hush [of d2 dis "mode2 cfg" "range_sel cfg" f "setup2 w"] s2 by simp
  show ?thesis
    using s1 s2 h1 h2 unfolding setup_instruments_def Let_def dis_def f_def
    by (simp add: quit_def)
qed

lemma setup_instruments_Inr:
  "setup_instruments w cfg d1 d2 = (ev, Inr cfg') \<Longrightarrow> cfg' = cfg\<lparr>delay := halve (delay cfg)\<rparr>"
  unfolding setup_instruments_def Let_def
  by (simp add: quit_def split: prod.splits if_splits)

lemma startup_Inr:
  assumes "startup w argv = (ev, Inr (cfg, fn, d1, d2))"
  obtains ev0 cfg0 g pre where
    "read_options w argv \<lparr>optind = 1, letP = None, optarg = None\<rparr> defaults = (ev0, Inr (cfg0, g))"
    "cfg = cfg0\<lparr>do_graph := (do_graph cfg0 \<and> popen_ok w), delay := halve (delay cfg0)\<rparr>"
    "ev = pre @ fst (write_header w cfg fn)"
    "list_all hushg pre" "\<not> popen_ok w \<longrightarrow> list_all hush pre"
proof -
  from assms obtain ev0 cfg0 g ev1 ev2 cfg1 ev3 ev4 cfg2 ev5 where
    ro: "read_options w argv \<lparr>optind = 1, letP = None, optarg = None\<rparr> defaults = (ev0, Inr (cfg0, g))"
    and pf: "prepare_file w argv cfg0 g = (ev1, Inr fn)"
    and sg: "start_gnuplot w cfg0 fn = (ev2, Inr cfg1)"
    and oi: "open_instruments w cfg1 = (ev3, Inr (d1, d2))"
    and si: "setup_instruments w cfg1 d1 d2 = (ev4, Inr cfg)"
    and wh: "write_header w cfg fn = (ev5, Inr ())"
    and ev: "ev = [Stderr Disclaimer] @ ev0 @ ev1 @ ev2 @ ev3 @ ev4 @ ev5"
    unfolding startup_def by (auto simp: andthen_eq_Inr simp del: andthen_Inr)
  have c: "cfg = cfg0\<lparr>do_graph := (do_graph cfg0 \<and> popen_ok w), delay := halve (delay cfg0)\<rparr>"
    using start_gnuplot_Inr [OF sg] setup_instruments_Inr [OF si] by simp
  have h0: "list_all hush ev0" using read_options_hush [of w argv _ defaults] ro by (metis fst_conv)
  have h1: "list_all hush ev1" using prepare_file_hush [of w argv cfg0 g] pf by simp
  have h2: "list_all hushg ev2" "\<not> popen_ok w \<longrightarrow> list_all hush ev2"
    using start_gnuplot_hush [of w cfg0 fn] sg by simp_all
  have h3: "list_all hush ev3" using open_instruments_hush [of w cfg1] oi by simp
  have h4: "list_all hush ev4" using setup_instruments_hush [of w cfg1 d1 d2] si by simp
  show ?thesis
  proof (rule that [OF ro c])
    show "ev = ([Stderr Disclaimer] @ ev0 @ ev1 @ ev2 @ ev3 @ ev4) @ fst (write_header w cfg fn)"
      using ev wh by simp
    show "list_all hushg ([Stderr Disclaimer] @ ev0 @ ev1 @ ev2 @ ev3 @ ev4)"
      using h0 h1 h2 h3 h4 by (simp add: hush_hushg)
    show "\<not> popen_ok w \<longrightarrow> list_all hush ([Stderr Disclaimer] @ ev0 @ ev1 @ ev2 @ ev3 @ ev4)"
      using h0 h1 h2 h3 h4 by simp
  qed
qed

lemma andthen_Inl_all:
  assumes "andthen m f = (ev, Inl out)" "list_all P (fst m)"
    "\<And>x ev'. f x = (ev', Inl out) \<Longrightarrow> list_all P ev'"
  shows "list_all P ev"
  using assms by (auto simp: andthen_eq_Inl simp del: andthen_Inr)

lemma startup_Inl_hushg:
  assumes "startup w argv = (ev, Inl out)"
  shows "list_all hushg ev"
  using assms unfolding startup_def
  apply -
  apply (erule andthen_Inl_all)
   apply simp
  apply (erule andthen_Inl_all)
   apply (simp add: hush_hushg read_options_hush)
  apply (simp only: split_paired_all prod.case)
  apply (erule andthen_Inl_all)
   apply (simp add: hush_hushg prepare_file_hush)
  apply (erule andthen_Inl_all)
   apply (simp add: start_gnuplot_hush)
  apply (erule andthen_Inl_all)
   apply (simp add: hush_hushg open_instruments_hush)
  apply (simp only: split_paired_all prod.case)
  apply (erule andthen_Inl_all)
   apply (simp add: hush_hushg setup_instruments_hush)
  apply (simp add: write_header_def)
  done

lemma startup_Inl_hush:
  assumes "startup w argv = (ev, Inl out)" "\<not> popen_ok w"
  shows "list_all hush ev"
  using assms unfolding startup_def
  apply -
  apply (erule andthen_Inl_all)
   apply simp
  apply (erule andthen_Inl_all)
   apply (simp add: read_options_hush)
  apply (simp only: split_paired_all prod.case)
  apply (erule andthen_Inl_all)
   apply (simp add: prepare_file_hush)
  apply (erule andthen_Inl_all)
   apply (simp add: start_gnuplot_hush)
  apply (erule andthen_Inl_all)
   apply (simp add: open_instruments_hush)
  apply (simp only: split_paired_all prod.case)
  apply (erule andthen_Inl_all)
   apply (simp add: setup_instruments_hush)
  apply (simp add: write_header_def)
  done

lemma s7150_close_cases:
  obtains (err) ev where "s7150_close dvm sta = (ev, 0)" "list_all hush ev" "sta AND ERR \<noteq> 0"
  | (ok) ev where "s7150_close dvm sta = (ev, 1)" "list_all hush ev" "sta AND ERR = 0"
  by (cases "sta AND ERR = 0") (auto simp: s7150_close_def Let_def)

definition footer :: "world \<Rightarrow> file_line list" where
  "footer w = [Footer (time_stop w)]"

lemma final_wait_events:
  "file_lines (fst (final_wait w)) = [] \<and> gp_lines (fst (final_wait w)) = []
   \<and> read_calls (fst (final_wait w)) = [] \<and> Fflush_outfile \<notin> set (fst (final_wait w))
   \<and> Fclose_outfile \<notin> set (fst (final_wait w))"
proof (cases "final_naps w")
  case None
  then show ?thesis by (simp add: final_wait_def)
next
  case (Some n)
  have "file_lines (concat (replicate n [Kbhit, Usleep 100000])) = []
    \<and> gp_lines (concat (replicate n [Kbhit, Usleep 100000])) = []
    \<and> read_calls (concat (replicate n [Kbhit, Usleep 100000])) = []"
    by (induction n) auto
  with Some show ?thesis by (auto simp: final_wait_def)
qed

lemma shutdown_events:
  "file_lines (fst (shutdown w cfg fn d1 d2)) = footer w
   \<and> read_calls (fst (shutdown w cfg fn d1 d2)) = []
   \<and> Fclose_outfile \<in> set (fst (shutdown w cfg fn d1 d2))
   \<and> (\<not> do_graph cfg \<longrightarrow> gp_lines (fst (shutdown w cfg fn d1 d2)) = [])"
proof (cases rule: s7150_close_cases [of d1 "close1 w"])
  case (err ev)
  then show ?thesis using hush_filters [of ev] by (simp add: shutdown_def footer_def Let_def)
next
  case (ok ev1)
  note ok1 = ok
  show ?thesis
  proof (cases rule: s7150_close_cases [of d2 "close2 w"])
    case (err ev)
    then show ?thesis using ok1 hush_filters [of ev1] hush_filters [of ev]
      by (simp add: shutdown_def footer_def Let_def)
  next
    case (ok ev2)
    show ?thesis
    proof (cases rule: replot_cases [of cfg fn])
      case ub
      then show ?thesis using ok1 ok hush_filters [of ev1] hush_filters [of ev2]
        by (simp add: shutdown_def footer_def Let_def)
    next
      case (ok l1 l2)
      then show ?thesis using ok1 \<open>s7150_close d2 (close2 w) = (ev2, 1)\<close> \<open>list_all hush ev2\<close>
          hush_filters [of ev1] hush_filters [of ev2] final_wait_events [of w]
        by (auto simp: shutdown_def footer_def Let_def split: prod.splits)
    qed
  qed
qed

lemma number_bound:
  "\<forall>c \<in> set ds. isdigit c \<Longrightarrow> number acc ds < (acc + 1) * 10 ^ length ds"
proof (induction ds arbitrary: acc)
  case Nil
  show ?case by simp
next
  case (Cons c cs)
  then have d: "(of_char c :: nat) - 48 \<le> 9" by (auto simp: isdigit_def)
  have "number (10 * acc + (of_char c - 48)) cs < (10 * acc + (of_char c - 48) + 1) * 10 ^ length cs"
    using Cons.IH [of "10 * acc + (of_char c - 48)"] Cons.prems by simp
  also have "\<dots> \<le> (10 * acc + 10) * 10 ^ length cs"
    using d by (intro mult_right_mono) auto
  also have "\<dots> = (acc + 1) * 10 ^ length (c # cs)" by (simp add: algebra_simps)
  finally show ?case by simp
qed

lemma scan_d_bound:
  assumes "scan_d 5 s = Some v"
  shows "- 100000 < v \<and> v < 100000"
proof -
  define s1 where "s1 = dropWhile isspace s"
  define field where "field = (if (case s1 of [] \<Rightarrow> False | c # _ \<Rightarrow> c = CHR ''-'' \<or> c = CHR ''+'')
      then take (5 - 1) (tl s1) else take 5 s1)"
  define ds where "ds = takeWhile isdigit field"
  have l: "length ds \<le> 5"
  proof -
    have "length ds \<le> length field" unfolding ds_def by (rule length_takeWhile_le)
    also have "\<dots> \<le> 5" unfolding field_def by auto
    finally show ?thesis .
  qed
  have "\<forall>c \<in> set ds. isdigit c" unfolding ds_def by (auto dest: set_takeWhileD)
  from number_bound [OF this, of 0] have "number 0 ds < 10 ^ length ds" by simp
  also have "\<dots> \<le> (10::nat) ^ 5" using l by (intro power_increasing) auto
  finally have n: "number 0 ds < 100000" by simp
  have "v = int (number 0 ds) \<or> v = - int (number 0 ds)"
    using assms unfolding scan_d_def Let_def s1_def [symmetric] field_def [symmetric] ds_def [symmetric]
    by (auto split: if_splits)
  with n show ?thesis by auto
qed

definition valid :: "config \<Rightarrow> bool" where
  "valid c = (0 \<le> delay c \<and> delay c \<le> 600 \<and> 0 \<le> mode1 c \<and> mode1 c \<le> 5
     \<and> 0 \<le> mode2 c \<and> mode2 c \<le> 5 \<and> - 100000 < do_flush c \<and> do_flush c < 100000)"

lemma valid_defaults: "valid defaults"
  by (simp add: valid_def defaults_def DCV_def DCA_def)

lemma option_case_valid:
  assumes "valid c" "option_case w argv k a c = (ev, Inr c')"
  shows "valid c'"
proof -
  have b: "\<And>v. scan_d 5 a = Some v \<Longrightarrow> - 100000 < v \<and> v < 100000" by (rule scan_d_bound)
  show ?thesis
    using assms b unfolding option_case_def valid_def Let_def
    by (auto split: if_splits option.splits)
qed

lemma read_options_valid:
  "read_options w argv g defaults = (ev, Inr (cfg, g')) \<Longrightarrow> valid cfg"
proof -
  assume r: "read_options w argv g defaults = (ev, Inr (cfg, g'))"
  show "valid cfg"
  proof (rule read_options_invariant [where P = valid, OF _ valid_defaults r])
    fix w argv k a c ev c'
    assume "valid c" "option_case w argv k a c = (ev, Inr c')"
    then show "valid c'" by (rule option_case_valid)
  qed
qed

lemma main_no_loop: "startup w argv = (ev, Inl out) \<Longrightarrow> main w argv its = (ev, out)"
  by (simp add: main_def)

lemma main_reaches_loop:
  assumes "startup w argv = (ev0, Inr (cfg, fn, d1, d2))"
  shows "fst (main w argv its)
           = ev0 @ concat (map fst (passes w cfg fn d1 d2 (vars0 w) its))
               @ (case loop_end (passes w cfg fn d1 d2 (vars0 w) its) of
                    Inl _ \<Rightarrow> [] | Inr _ \<Rightarrow> fst (shutdown w cfg fn d1 d2))"
    and "snd (main w argv its)
           = (case loop_end (passes w cfg fn d1 d2 (vars0 w) its) of
                Inl out \<Rightarrow> out | Inr _ \<Rightarrow> snd (shutdown w cfg fn d1 d2))"
proof -
  have a: "acq_loop w cfg fn d1 d2 (vars0 w) its
             = (concat (map fst (passes w cfg fn d1 d2 (vars0 w) its)),
                loop_end (passes w cfg fn d1 d2 (vars0 w) its))"
    by (simp add: prod_eq_iff acq_loop_events acq_loop_result)
  show "fst (main w argv its)
           = ev0 @ concat (map fst (passes w cfg fn d1 d2 (vars0 w) its))
               @ (case loop_end (passes w cfg fn d1 d2 (vars0 w) its) of
                    Inl _ \<Rightarrow> [] | Inr _ \<Rightarrow> fst (shutdown w cfg fn d1 d2))"
    using assms a
    by (cases "loop_end (passes w cfg fn d1 d2 (vars0 w) its)")
       (simp_all add: main_def acquire_def split: prod.splits)
  show "snd (main w argv its)
           = (case loop_end (passes w cfg fn d1 d2 (vars0 w) its) of
                Inl out \<Rightarrow> out | Inr _ \<Rightarrow> snd (shutdown w cfg fn d1 d2))"
    using assms a
    by (cases "loop_end (passes w cfg fn d1 d2 (vars0 w) its)")
       (simp_all add: main_def acquire_def split: prod.splits)
qed

lemma passes_all:
  assumes "\<And>v e. Q (iteration w cfg fn d1 d2 v e)"
  shows "\<forall>p \<in> set (passes w cfg fn d1 d2 v its). Q p"
proof (induction its arbitrary: v)
  case Nil
  show ?case by simp
next
  case (Cons e es)
  show ?case using assms Cons.IH by (auto split: sum.splits)
qed

lemma passes_pass:
  assumes "i < length (passes w cfg fn d1 d2 v its)" "\<not> stop_key (key v)"
  shows "\<exists>vi. passes w cfg fn d1 d2 v its ! i = iteration w cfg fn d1 d2 vi (its ! i)
          \<and> \<not> stop_key (key vi) \<and> loop vi = loop v + of_nat i \<and> i < length its"
  using assms
proof (induction its arbitrary: v i)
  case Nil
  then show ?case by simp
next
  case (Cons e es)
  show ?case
  proof (cases i)
    case 0
    with Cons.prems show ?thesis by auto
  next
    case (Suc j)
    with Cons.prems obtain v' where
      r: "snd (iteration w cfg fn d1 d2 v e) = Inr v'" and ns: "\<not> stop_key (key v')"
      and j: "j < length (passes w cfg fn d1 d2 v' es)"
      by (auto split: sum.splits if_splits)
    obtain ev where it: "iteration w cfg fn d1 d2 v e = (ev, Inr v')"
      using r by (cases "iteration w cfg fn d1 d2 v e") auto
    have l: "loop v' = loop v + 1"
    proof (cases rule: iteration_cases [of w cfg fn d1 d2 v e])
      case (ub ev)
      with it show ?thesis by simp
    next
      case (err ev)
      with it show ?thesis by simp
    next
      case (ok ev1 b1 ev2 b2 ev3 v'')
      with it have "v'' = v'" by simp
      with record_sample_Inr [OF ok(3)] show ?thesis by simp
    qed
    from Cons.IH [OF j ns] obtain vi where
      vi: "passes w cfg fn d1 d2 v' es ! j = iteration w cfg fn d1 d2 vi (es ! j)"
        "\<not> stop_key (key vi)" "loop vi = loop v' + of_nat j" "j < length es"
      by blast
    show ?thesis using Suc r ns vi l by auto
  qed
qed

lemma passes_last:
  assumes "passes w cfg fn d1 d2 v its \<noteq> []"
  shows "last (passes w cfg fn d1 d2 v its)
           = passes w cfg fn d1 d2 v its ! (length (passes w cfg fn d1 d2 v its) - 1)"
  using assms by (rule last_conv_nth)

lemma iteration_read_calls:
  "\<forall>x \<in> set (read_calls (fst (iteration w cfg fn d1 d2 v e))). snd x = delay cfg"
proof -
  have q: "read_calls (fst (quit w [Close_keyboard] :: vars step)) = []"
    by (simp add: quit_def)
  have "fst (iteration w cfg fn d1 d2 v e) = X \<Longrightarrow> \<forall>x \<in> set (read_calls X). snd x = delay cfg" for X
    unfolding iteration_def
    using s7150_read_events [of d1 "delay cfg" "buffer1 v" "rd1 e"]
      s7150_read_events [of d2 "delay cfg" "buffer2 v" "rd2 e"] q
      record_sample_read_calls [of w cfg fn v e]
    by (auto simp: fst_andthen split: sum.splits prod.splits if_splits)
  then show ?thesis by blast
qed

lemma write_header_events:
  "file_lines (fst (write_header w cfg fn)) = header w cfg
   \<and> read_calls (fst (write_header w cfg fn)) = []
   \<and> gp_lines (fst (write_header w cfg fn)) = []
   \<and> Fflush_outfile \<notin> set (fst (write_header w cfg fn))
   \<and> Fclose_outfile \<notin> set (fst (write_header w cfg fn))"
  by (auto simp: write_header_def header_def)

lemma read_calls_concat:
  "(\<forall>p \<in> set ps. \<forall>x \<in> set (read_calls (fst p)). snd x = d)
     \<Longrightarrow> \<forall>x \<in> set (read_calls (concat (map fst ps))). snd x = d"
  by (induction ps) auto

lemma main_read_calls:
  assumes "read_options w argv \<lparr>optind = 1, letP = None, optarg = None\<rparr> defaults
             = (ev0, Inr (cfg0, g))"
  shows "\<forall>x \<in> set (read_calls (fst (main w argv its))). snd x = halve (delay cfg0)"
proof (cases "startup w argv")
  case (Pair ev r)
  show ?thesis
  proof (cases r)
    case (Inl out)
    with Pair have "list_all hushg ev" by (auto dest: startup_Inl_hushg)
    then have "read_calls ev = []" by (simp add: hushg_filters)
    with Pair Inl show ?thesis by (simp add: main_no_loop)
  next
    case (Inr x)
    obtain cfg fn d1 d2 where x: "x = (cfg, fn, d1, d2)" by (cases x) auto
    with Pair Inr have st: "startup w argv = (ev, Inr (cfg, fn, d1, d2))" by simp
    from st obtain ev0' cfg0' g' pre where
      s: "read_options w argv \<lparr>optind = 1, letP = None, optarg = None\<rparr> defaults
             = (ev0', Inr (cfg0', g'))"
        "cfg = cfg0'\<lparr>do_graph := (do_graph cfg0' \<and> popen_ok w), delay := halve (delay cfg0')\<rparr>"
        "ev = pre @ fst (write_header w cfg fn)" "list_all hushg pre"
        "\<not> popen_ok w \<longrightarrow> list_all hush pre"
      by (rule startup_Inr)
    from s(1) assms have "cfg0' = cfg0" by simp
    with s(2) have d: "delay cfg = halve (delay cfg0)" by simp
    have e: "read_calls ev = []"
      using s(3,4) write_header_events [of w cfg fn] by (simp add: hushg_filters)
    have p: "\<forall>x \<in> set (read_calls (concat (map fst (passes w cfg fn d1 d2 (vars0 w) its)))).
               snd x = delay cfg"
      by (rule read_calls_concat) (rule passes_all, rule iteration_read_calls)
    have sh: "read_calls (fst (shutdown w cfg fn d1 d2)) = []"
      using shutdown_events [of w cfg fn d1 d2] by simp
    show ?thesis
      using main_reaches_loop(1) [OF st, of its] e p sh d
      by (auto split: sum.splits)
  qed
qed

lemma iteration_Inr_read_calls:
  assumes "iteration w cfg fn d1 d2 v e = (ev, Inr v')"
  shows "read_calls ev = [(d1, delay cfg), (d2, delay cfg)]"
proof (cases rule: iteration_cases [of w cfg fn d1 d2 v e])
  case (ub ev)
  with assms show ?thesis by simp
next
  case (err ev)
  with assms show ?thesis by simp
next
  case (ok ev1 b1 ev2 b2 ev3 v'')
  with assms have "ev = ev1 @ ev2 @ ev3" and "v'' = v'" by simp_all
  then show ?thesis
    using s7150_read_events [of d1 "delay cfg" "buffer1 v" "rd1 e"] ok(1)
      s7150_read_events [of d2 "delay cfg" "buffer2 v" "rd2 e"] ok(2)
      record_sample_Inr [OF ok(3)]
    by simp
qed

lemma read_options_t7:
  "read_options bench args_t7 \<lparr>optind = 1, letP = None, optarg = None\<rparr> defaults
     = ([], Inr (cfg_t7, \<lparr>optind = 5, letP = None, optarg = None\<rparr>))"
  by code_simp

lemma read_calls_t7:
  "read_calls (fst (main bench args_t7 [pass 1006 None, pass 1012 (Some 113)]))
     = [(16, 3), (17, 3), (16, 3), (17, 3)]"
  by code_simp

lemma file_lines_concat:
  "file_lines (concat (map fst ps)) = concat (map (\<lambda>p. file_lines (fst p)) ps)"
  by (induction ps) auto

lemma iteration_Inr_file_lines:
  assumes "iteration w cfg fn d1 d2 v e = (ev, Inr v')"
  shows "file_lines ev = [sample w e v']"
proof (cases rule: iteration_cases [of w cfg fn d1 d2 v e])
  case (ub ev)
  with assms show ?thesis by simp
next
  case (err ev)
  with assms show ?thesis by simp
next
  case (ok ev1 b1 ev2 b2 ev3 v'')
  with assms have "ev = ev1 @ ev2 @ ev3" and "v'' = v'" by simp_all
  then show ?thesis
    using s7150_read_events [of d1 "delay cfg" "buffer1 v" "rd1 e"] ok(1)
      s7150_read_events [of d2 "delay cfg" "buffer2 v" "rd2 e"] ok(2)
      record_sample_Inr [OF ok(3)]
    by simp
qed

lemma iteration_Inl_file_lines:
  assumes "iteration w cfg fn d1 d2 v e = (ev, Inl out)"
  shows "out = Undefined_behaviour \<or> file_lines ev = []"
proof (cases rule: iteration_cases [of w cfg fn d1 d2 v e])
  case (ub ev)
  with assms show ?thesis by simp
next
  case (err ev)
  with assms show ?thesis by simp
next
  case (ok ev1 b1 ev2 b2 ev3 v'')
  with assms show ?thesis by simp
qed

lemma vars0_no_stop: "\<not> stop_key (key (vars0 w))"
  by (simp add: vars0_def stop_key_def ord_def ESC_def)

lemma startup_t7: "snd (startup bench args_t7) = Inr (run_t7, ''out.dat'', 16, 17)"
  by code_simp

lemma loop_end_t7:
  "(case loop_end (passes bench run_t7 ''out.dat'' 16 17 (vars0 bench) its_t7) of
      Inl _ \<Rightarrow> [] | Inr _ \<Rightarrow> [Footer (time_stop bench)]) = [Footer 1060]"
  by code_simp

lemma lines_t7:
  "header bench run_t7
     @ concat (map (\<lambda>p. file_lines (fst p)) (passes bench run_t7 ''out.dat'' 16 17 (vars0 bench) its_t7))
     @ [Footer 1060]
   = [Hdr_program, Hdr_comment [], Hdr_start 1000, Hdr_legend,
      Sample (1 / 10) ''+1.23456E+0 VDC'' ''+0.50000E-3 ADC'',
      Sample (1 / 5) ''+1.23456E+0 VDC'' ''+0.50000E-3 ADC'', Footer 1060]"
  by code_simp

lemma iteration_Inr_key:
  assumes "iteration w cfg fn d1 d2 v e = (ev, Inr v')"
  shows "key v' = (case kb e of Some k \<Rightarrow> k
                   | None \<Rightarrow> if timed_out cfg ((now e - t0 w) / 60) then ESC else key v)"
proof (cases rule: iteration_cases [of w cfg fn d1 d2 v e])
  case (ub ev)
  with assms show ?thesis by simp
next
  case (err ev)
  with assms show ?thesis by simp
next
  case (ok ev1 b1 ev2 b2 ev3 v'')
  with assms have "v'' = v'" by simp
  with record_sample_Inr [OF ok(3)] show ?thesis by simp
qed

lemma iteration_Exit:
  assumes "iteration w cfg fn d1 d2 v e = (ev, Inl (Exit c))"
  shows "c = ERR_INST \<and> (fst (rd1 e) AND ERR \<noteq> 0 \<or> fst (rd2 e) AND ERR \<noteq> 0)
     \<and> Stderr Read_error \<in> set ev"
proof (cases rule: iteration_cases [of w cfg fn d1 d2 v e])
  case (ub ev)
  with assms show ?thesis by simp
next
  case (err ev)
  with assms show ?thesis by simp
next
  case (ok ev1 b1 ev2 b2 ev3 v'')
  with assms show ?thesis by simp
qed

lemma last_pass:
  assumes "passes w cfg fn d1 d2 (vars0 w) its \<noteq> []"
  shows "\<exists>vi. last (passes w cfg fn d1 d2 (vars0 w) its)
            = iteration w cfg fn d1 d2 vi (its ! (length (passes w cfg fn d1 d2 (vars0 w) its) - 1))
          \<and> \<not> stop_key (key vi)
          \<and> loop vi = of_nat (length (passes w cfg fn d1 d2 (vars0 w) its) - 1)"
proof -
  have i: "length (passes w cfg fn d1 d2 (vars0 w) its) - 1 < length (passes w cfg fn d1 d2 (vars0 w) its)"
    using assms by simp
  from passes_pass [OF i vars0_no_stop] passes_last [OF assms]
  show ?thesis by (auto simp: vars0_def)
qed

lemma loop_t7:
  "tstop run_t7 = Finite 0
   \<and> map_sum id key (loop_end (passes bench run_t7 ''out.dat'' 16 17 (vars0 bench) its_t7)) = Inr 113
   \<and> length (passes bench run_t7 ''out.dat'' 16 17 (vars0 bench) its_t7) = 2
   \<and> kb (its_t7 ! 1) = Some 113 \<and> stop_key 113"
  by code_simp

lemma flush_due_dvd:
  assumes "0 < do_flush cfg" "do_flush cfg < 100000" "k < 2 ^ 64"
  shows "flush_due cfg (of_nat k) = (nat (do_flush cfg) dvd k)"
proof -
  define N where "N = nat (do_flush cfg)"
  have N: "do_flush cfg = int N" "0 < N" "N < 2 ^ 64" using assms by (simp_all add: N_def)
  have w: "(word_of_int (do_flush cfg) :: 64 word) = of_nat N" by (simp add: N)
  have uN: "unat (of_nat N :: 64 word) = N" using N(3) by (simp add: unat_of_nat)
  have uk: "unat (of_nat k :: 64 word) = k" using assms(3) by (simp add: unat_of_nat)
  have "flush_due cfg (of_nat k) = (unat ((of_nat k :: 64 word) mod of_nat N) = 0)"
    by (simp add: flush_due_def w unat_eq_zero)
  also have "\<dots> = (k mod N = 0)" by (simp add: unat_mod uN uk)
  also have "\<dots> = (N dvd k)" by auto
  finally show ?thesis by (simp add: N_def)
qed

lemma ylabel_Some: "ylabel m = Some l \<Longrightarrow> l = ylabels ! nat m"
  by (simp add: ylabel_def split: if_splits)

lemma ylabel_valid: "0 \<le> m \<Longrightarrow> m \<le> 5 \<Longrightarrow> ylabel m = Some (ylabels ! nat m)"
  by (simp add: ylabel_def ylabels_def)

lemma replot_Inr:
  "replot cfg fn = (ev, Inr plot) \<Longrightarrow> ev = [] \<and> plot = [Fprintf_gp (plot_line cfg fn), Fflush_gp]"
  by (auto simp: replot_def plot_line_def split: option.splits dest: ylabel_Some)

lemma replot_valid:
  assumes "0 \<le> mode1 cfg" "mode1 cfg \<le> 5" "0 \<le> mode2 cfg" "mode2 cfg \<le> 5"
  shows "replot cfg fn = ([], Inr [Fprintf_gp (plot_line cfg fn), Fflush_gp])"
  using assms by (simp add: replot_def plot_line_def ylabel_valid)

lemma record_sample_gp:
  assumes "record_sample w cfg fn v e b1 b2 = (ev, Inr v')"
  shows "gp_lines ev = (if do_graph cfg \<and> flush_due cfg (loop v + 1) then [plot_line cfg fn] else [])"
proof (cases "replot cfg fn")
  case (Pair evp r)
  show ?thesis
  proof (cases r)
    case (Inl out)
    with Pair assms show ?thesis
      by (auto simp: record_sample_def Let_def split: if_splits option.splits)
  next
    case (Inr plot)
    with Pair replot_Inr [of cfg fn evp plot] assms show ?thesis
      by (auto simp: record_sample_def Let_def split: if_splits option.splits)
  qed
qed

lemma iteration_Inr_flush:
  assumes "iteration w cfg fn d1 d2 v e = (ev, Inr v')"
  shows "(Fflush_outfile \<in> set ev) = flush_due cfg (loop v + 1)
     \<and> gp_lines ev = (if do_graph cfg \<and> flush_due cfg (loop v + 1) then [plot_line cfg fn] else [])"
proof (cases rule: iteration_cases [of w cfg fn d1 d2 v e])
  case (ub ev)
  with assms show ?thesis by simp
next
  case (err ev)
  with assms show ?thesis by simp
next
  case (ok ev1 b1 ev2 b2 ev3 v'')
  with assms have "ev = ev1 @ ev2 @ ev3" and "v'' = v'" by simp_all
  then show ?thesis
    using s7150_read_events [of d1 "delay cfg" "buffer1 v" "rd1 e"] ok(1)
      s7150_read_events [of d2 "delay cfg" "buffer2 v" "rd2 e"] ok(2)
      record_sample_Inr [OF ok(3)] record_sample_gp [OF ok(3)]
    by simp
qed

lemma startup_valid:
  assumes "startup w argv = (ev, Inr (cfg, fn, d1, d2))"
  shows "0 \<le> mode1 cfg \<and> mode1 cfg \<le> 5 \<and> 0 \<le> mode2 cfg \<and> mode2 cfg \<le> 5
     \<and> - 100000 < do_flush cfg \<and> do_flush cfg < 100000
     \<and> (do_graph cfg \<longrightarrow> popen_ok w)"
proof -
  from assms obtain ev0' cfg0' g' pre where
    s: "read_options w argv \<lparr>optind = 1, letP = None, optarg = None\<rparr> defaults
           = (ev0', Inr (cfg0', g'))"
      "cfg = cfg0'\<lparr>do_graph := (do_graph cfg0' \<and> popen_ok w), delay := halve (delay cfg0')\<rparr>"
      "ev = pre @ fst (write_header w cfg fn)" "list_all hushg pre"
      "\<not> popen_ok w \<longrightarrow> list_all hush pre"
    by (rule startup_Inr)
  from s(1) have "valid cfg0'" by (rule read_options_valid)
  with s(2) show ?thesis by (simp add: valid_def)
qed

lemma shutdown_plot:
  assumes "0 \<le> mode1 cfg" "mode1 cfg \<le> 5" "0 \<le> mode2 cfg" "mode2 cfg \<le> 5"
    "do_graph cfg" "close1 w AND ERR = 0" "close2 w AND ERR = 0"
  shows "gp_lines (fst (shutdown w cfg fn d1 d2)) = [plot_line cfg fn]"
proof (cases rule: s7150_close_cases [of d1 "close1 w"])
  case (err ev)
  with assms show ?thesis by simp
next
  case (ok ev1)
  note ok1 = ok
  show ?thesis
  proof (cases rule: s7150_close_cases [of d2 "close2 w"])
    case (err ev)
    with assms show ?thesis by simp
  next
    case (ok ev2)
    show ?thesis
      using ok1 ok assms(5) replot_valid [OF assms(1-4), of fn]
        hush_filters [of ev1] hush_filters [of ev2] final_wait_events [of w]
      by (auto simp: shutdown_def Let_def split: prod.splits)
  qed
qed

lemma cadence_t7:
  "0 < do_flush run_t7
   \<and> length (passes bench run_t7 ''out.dat'' 16 17 (vars0 bench) its_t7) = 2
   \<and> \<not> isl (snd (passes bench run_t7 ''out.dat'' 16 17 (vars0 bench) its_t7 ! (2 - 1)))
   \<and> \<not> isl (loop_end (passes bench run_t7 ''out.dat'' 16 17 (vars0 bench) its_t7))
   \<and> do_graph run_t7 \<and> close1 bench AND ERR = 0 \<and> close2 bench AND ERR = 0
   \<and> nat (do_flush run_t7) dvd 2
   \<and> plot_line run_t7 ''out.dat'' = Gp_plot ''out.dat'' 16 ''V'' 12 ''mA''"
  by code_simp

lemma record_sample_no_gp:
  "\<not> do_graph cfg \<Longrightarrow> gp_lines (fst (record_sample w cfg fn v e b1 b2)) = []"
  by (auto simp: record_sample_def Let_def split: option.splits)

lemma iteration_no_gp:
  assumes "\<not> do_graph cfg"
  shows "gp_lines (fst (iteration w cfg fn d1 d2 v e)) = []"
proof -
  have q: "gp_lines (fst (quit w [Close_keyboard] :: vars step)) = []"
    by (simp add: quit_def)
  show ?thesis
    unfolding iteration_def
    using s7150_read_events [of d1 "delay cfg" "buffer1 v" "rd1 e"]
      s7150_read_events [of d2 "delay cfg" "buffer2 v" "rd2 e"] q
      record_sample_no_gp [OF assms, of w fn v e]
    by (auto simp: fst_andthen split: sum.splits prod.splits if_splits)
qed

lemma gp_lines_concat:
  "(\<forall>p \<in> set ps. gp_lines (fst p) = []) \<Longrightarrow> gp_lines (concat (map fst ps)) = []"
  by (induction ps) auto

lemma shutdown_exit:
  assumes "\<not> do_graph cfg" "close1 w AND ERR = 0" "close2 w AND ERR = 0"
  shows "snd (shutdown w cfg fn d1 d2) = Exit 0"
proof (cases rule: s7150_close_cases [of d1 "close1 w"])
  case (err ev)
  with assms show ?thesis by simp
next
  case (ok ev1)
  note ok1 = ok
  show ?thesis
  proof (cases rule: s7150_close_cases [of d2 "close2 w"])
    case (err ev)
    with assms show ?thesis by simp
  next
    case (ok ev2)
    with ok1 assms(1) show ?thesis by (simp add: shutdown_def Let_def)
  qed
qed

lemma run_no_pipe:
  "\<not> popen_ok no_pipe
   \<and> snd (main no_pipe args_plain its_esc) = Exit 0
   \<and> file_lines (fst (main no_pipe args_plain its_esc))
       = [Hdr_program, Hdr_comment [], Hdr_start 1000, Hdr_legend,
          Sample (1 / 10) ''+1.23456E+0 VDC'' ''+0.50000E-3 ADC'',
          Sample (1 / 5) ''+1.23456E+0 VDC'' ''+0.50000E-3 ADC'', Footer 1060]
   \<and> Stderr No_gnuplot \<in> set (fst (main no_pipe args_plain its_esc))"
  by code_simp

lemma flush_divisor_zero:
  assumes "- 100000 < n" "n < 100000"
  shows "((word_of_int n :: 64 word) = 0) = (n = 0)"
proof
  assume "(word_of_int n :: 64 word) = 0"
  then have d: "(2 ^ 64 :: int) dvd n" by (simp add: word_of_int_eq_0_iff)
  show "n = 0"
  proof (rule ccontr)
    assume "n \<noteq> 0"
    moreover from d have "(2 ^ 64 :: int) dvd \<bar>n\<bar>" by simp
    ultimately have "(2 ^ 64 :: int) \<le> \<bar>n\<bar>" by (intro zdvd_imp_le) auto
    with assms show False by simp
  qed
next
  assume "n = 0"
  then show "(word_of_int n :: 64 word) = 0" by simp
qed

lemma record_sample_zero:
  "do_flush cfg = 0 \<Longrightarrow> snd (record_sample w cfg fn v e b1 b2) = Inl Undefined_behaviour"
  by (simp add: record_sample_def Let_def)

lemma iteration_zero:
  assumes "do_flush cfg = 0"
  shows "isl (snd (iteration w cfg fn d1 d2 v e))
     \<and> (fst (rd1 e) AND ERR = 0 \<and> fst (rd2 e) AND ERR = 0
          \<longrightarrow> snd (iteration w cfg fn d1 d2 v e) = Inl Undefined_behaviour)"
proof (cases rule: iteration_cases [of w cfg fn d1 d2 v e])
  case (ub ev)
  then show ?thesis by simp
next
  case (err ev)
  then show ?thesis by auto
next
  case (ok ev1 b1 ev2 b2 ev3 v')
  with record_sample_zero [OF assms, of w fn v e b1 b2] show ?thesis by simp
qed

lemma run_w0:
  "read_options bench args_w0 \<lparr>optind = 1, letP = None, optarg = None\<rparr> defaults
     = ([], Inr (defaults\<lparr>do_flush := 0\<rparr>, \<lparr>optind = 3, letP = None, optarg = None\<rparr>))
   \<and> snd (startup bench args_w0) = Inr (defaults\<lparr>do_flush := 0, delay := 5\<rparr>, ''out.dat'', 16, 17)
   \<and> do_flush (defaults\<lparr>do_flush := 0, delay := 5\<rparr>) = 0
   \<and> fst (rd1 (pass 1006 None)) AND ERR = 0 \<and> fst (rd2 (pass 1006 None)) AND ERR = 0
   \<and> file_lines (fst (main bench args_w0 [pass 1006 None, pass 1012 (Some 113)]))
       = [Hdr_program, Hdr_comment [], Hdr_start 1000, Hdr_legend,
          Sample (1 / 10) ''+1.23456E+0 VDC'' ''+0.50000E-3 ADC'']"
  by code_simp

lemma s7150_read_no_usleep: "d \<le> 0 \<Longrightarrow> Usleep u \<notin> set (fst (s7150_read dvm d buf bus))"
  by (simp add: s7150_read_def Let_def)

lemma record_sample_no_usleep: "Usleep u \<notin> set (fst (record_sample w cfg fn v e b1 b2))"
  by (cases rule: replot_cases [of cfg fn])
     (auto simp: record_sample_def Let_def split: option.splits)

lemma iteration_no_usleep:
  assumes "delay cfg = 0"
  shows "Usleep u \<notin> set (fst (iteration w cfg fn d1 d2 v e))"
proof -
  have q: "Usleep u \<notin> set (fst (quit w [Close_keyboard] :: vars step))"
    by (simp add: quit_def)
  show ?thesis
    unfolding iteration_def
    using s7150_read_no_usleep [of "delay cfg" u d1 "buffer1 v" "rd1 e"]
      s7150_read_no_usleep [of "delay cfg" u d2 "buffer2 v" "rd2 e"] q assms
      record_sample_no_usleep [of u w cfg fn v e]
    by (auto simp: fst_andthen split: sum.splits prod.splits if_splits)
qed

lemma dec_0: "dec 0 = ''0''"
  by code_simp

lemma halve_1: "halve 1 = 0"
  by (simp add: halve_nonneg)

lemma setup_instruments_first:
  "hd (fst (setup_instruments w c d1 d2))
     = Ibwrt d1 (''D'' @ dec (if do_display c then 0 else 1) @ ''M'' @ dec (mode1 c)
                  @ ''R'' @ dec (range_sel c)
                  @ ''I'' @ dec (integration (sampling_freq w (halve (delay c)))) @ [LF])"
proof -
  define dis :: int where "dis = (if do_display c then 1 else 0)"
  define f where "f = sampling_freq w (halve (delay c))"
  obtain ev1 r1 where s1: "s7150_setup d1 dis (mode1 c) (range_sel c) f (setup1 w) = (ev1, r1)"
    by (cases "s7150_setup d1 dis (mode1 c) (range_sel c) f (setup1 w)") auto
  have h: "ev1 \<noteq> [] \<and> hd ev1 = Ibwrt d1 (''D'' @ dec (if dis = 0 then 1 else 0) @ ''M'' @ dec (mode1 c)
                  @ ''R'' @ dec (range_sel c) @ ''I'' @ dec (integration f) @ [LF])"
    using s1 by (auto simp: s7150_setup_def Let_def split: if_splits)
  have d: "(if dis = 0 then 1 else 0 :: int) = (if do_display c then 0 else 1)"
    by (simp add: dis_def)
  have "hd (fst (setup_instruments w c d1 d2)) = hd ev1"
    using s1 h unfolding setup_instruments_def Let_def dis_def [symmetric]
    by (auto simp: dis_def f_def quit_def split: prod.splits)
  with h d show ?thesis by (simp add: f_def)
qed

lemma run_t1:
  "read_options bench args_t1 \<lparr>optind = 1, letP = None, optarg = None\<rparr> defaults
     = ([], Inr (defaults\<lparr>delay := 1\<rparr>, \<lparr>optind = 3, letP = None, optarg = None\<rparr>))
   \<and> delay (defaults\<lparr>delay := 1\<rparr>) = 1 \<and> (0::int) \<le> 7 \<and> odd (7::int)
   \<and> read_calls (fst (main bench args_t1 its_esc)) = [(16, 0), (17, 0), (16, 0), (17, 0)]
   \<and> Ibwrt 16 (''D0M0R0I0'' @ [LF]) \<in> set (fst (main bench args_t1 its_esc))"
  by code_simp

subsection \<open>The calls of \<open>s7150_read\<close> in a run\<close>

lemma halve_range: "0 \<le> d \<Longrightarrow> d \<le> 600 \<Longrightarrow> 0 \<le> halve d \<and> halve d \<le> 300"
  by (simp only: halve_nonneg) arith

lemma main_read_delays:
  "\<forall>x \<in> set (read_calls (fst (main w argv its))). 0 \<le> snd x \<and> snd x \<le> 300"
proof (cases "startup w argv")
  case (Pair ev r)
  show ?thesis
  proof (cases r)
    case (Inl out)
    with Pair have "list_all hushg ev" by (auto dest: startup_Inl_hushg)
    then have "read_calls ev = []" by (simp add: hushg_filters)
    with Pair Inl show ?thesis by (simp add: main_no_loop)
  next
    case (Inr x)
    obtain cfg fn d1 d2 where x: "x = (cfg, fn, d1, d2)" by (cases x) auto
    with Pair Inr have st: "startup w argv = (ev, Inr (cfg, fn, d1, d2))" by simp
    from st obtain ev0 cfg0 g pre where
      s: "read_options w argv \<lparr>optind = 1, letP = None, optarg = None\<rparr> defaults
             = (ev0, Inr (cfg0, g))"
        "cfg = cfg0\<lparr>do_graph := (do_graph cfg0 \<and> popen_ok w), delay := halve (delay cfg0)\<rparr>"
        "ev = pre @ fst (write_header w cfg fn)" "list_all hushg pre"
        "\<not> popen_ok w \<longrightarrow> list_all hush pre"
      by (rule startup_Inr)
    have v: "0 \<le> delay cfg0 \<and> delay cfg0 \<le> 600"
      using read_options_valid [OF s(1)] by (simp add: valid_def)
    then have "0 \<le> halve (delay cfg0) \<and> halve (delay cfg0) \<le> 300"
      by (simp add: halve_range)
    with main_read_calls [OF s(1), of its] show ?thesis by simp
  qed
qed

lemma startup_delay:
  assumes "startup w argv = (ev, Inr (cfg, fn, d1, d2))"
  shows "0 \<le> delay cfg \<and> delay cfg \<le> 300"
proof -
  from assms obtain ev0 cfg0 g pre where
    s: "read_options w argv \<lparr>optind = 1, letP = None, optarg = None\<rparr> defaults
           = (ev0, Inr (cfg0, g))"
      "cfg = cfg0\<lparr>do_graph := (do_graph cfg0 \<and> popen_ok w), delay := halve (delay cfg0)\<rparr>"
      "ev = pre @ fst (write_header w cfg fn)" "list_all hushg pre"
      "\<not> popen_ok w \<longrightarrow> list_all hush pre"
    by (rule startup_Inr)
  have v: "0 \<le> delay cfg0 \<and> delay cfg0 \<le> 600"
    using read_options_valid [OF s(1)] by (simp add: valid_def)
  then have "0 \<le> halve (delay cfg0) \<and> halve (delay cfg0) \<le> 300"
    by (simp add: halve_range)
  with s(2) show ?thesis by simp
qed

lemma s7150_read_length:
  assumes "s7150_read dvm d buf bus = (ev, Inr (r, b))"
  shows "length b = length buf"
  using assms by (auto simp: s7150_read_def Let_def split: if_splits)

lemma iteration_buffers:
  assumes "iteration w cfg fn d1 d2 v e = (ev, Inr v')"
  shows "length (buffer1 v') = length (buffer1 v) \<and> length (buffer2 v') = length (buffer2 v)"
proof (cases rule: iteration_cases [of w cfg fn d1 d2 v e])
  case (ub ev)
  with assms show ?thesis by simp
next
  case (err ev)
  with assms show ?thesis by simp
next
  case (ok ev1 b1 ev2 b2 ev3 v'')
  with assms have "v'' = v'" by simp
  with record_sample_Inr [OF ok(3)] s7150_read_length [OF ok(1)] s7150_read_length [OF ok(2)]
  show ?thesis by simp
qed

lemma passes_buffers:
  assumes "i < length (passes w cfg fn d1 d2 v its)"
    "length (buffer1 v) = n" "length (buffer2 v) = n"
  shows "\<exists>vi. passes w cfg fn d1 d2 v its ! i = iteration w cfg fn d1 d2 vi (its ! i)
          \<and> length (buffer1 vi) = n \<and> length (buffer2 vi) = n"
  using assms
proof (induction its arbitrary: v i)
  case Nil
  then show ?case by simp
next
  case (Cons e es)
  show ?case
  proof (cases i)
    case 0
    with Cons.prems show ?thesis by auto
  next
    case (Suc j)
    with Cons.prems obtain v' where
      r: "snd (iteration w cfg fn d1 d2 v e) = Inr v'"
      and j: "j < length (passes w cfg fn d1 d2 v' es)"
      by (auto split: sum.splits if_splits)
    obtain ev where it: "iteration w cfg fn d1 d2 v e = (ev, Inr v')"
      using r by (cases "iteration w cfg fn d1 d2 v e") auto
    from iteration_buffers [OF it] Cons.prems
    have l: "length (buffer1 v') = n" "length (buffer2 v') = n" by simp_all
    from Cons.IH [OF j l] obtain vi where
      vi: "passes w cfg fn d1 d2 v' es ! j = iteration w cfg fn d1 d2 vi (es ! j)"
        "length (buffer1 vi) = n" "length (buffer2 vi) = n"
      by blast
    show ?thesis using Suc r vi Cons.prems(1) by (auto split: if_splits)
  qed
qed

lemma vars0_buffers: "length (buffer1 (vars0 w)) = MAXLEN \<and> length (buffer2 (vars0 w)) = MAXLEN"
  by (auto simp: vars0_def buffer_def MAXLEN_def)

subsection \<open>The process: exit, the pipe to gnuplot, the output file\<close>

lemma at_exit_Exit [simp]: "at_exit (ev, Exit c) = (ev @ [Exit_closes_streams], Exit c)"
  by (simp add: at_exit_def)

lemma at_exit_other [simp]:
  "at_exit (ev, Undefined_behaviour) = (ev, Undefined_behaviour)"
  "at_exit (ev, Running) = (ev, Running)"
  by (simp_all add: at_exit_def)

lemma outfile_open_append [simp]:
  "outfile_open w s (xs @ ys) = outfile_open w (outfile_open w s xs) ys"
  by (induction w s xs rule: outfile_open.induct) auto

lemma upto_flush_skip:
  "Fflush_gp \<notin> set xs \<Longrightarrow>
     upto_flush n (xs @ ys) = (case upto_flush n ys of None \<Rightarrow> None | Some zs \<Rightarrow> Some (xs @ zs))"
  by (induction xs) (auto split: event.splits option.splits)



lemma console_no_flush: "list_all console ev \<Longrightarrow> Fflush_gp \<notin> set ev"
  by (induction ev) auto

lemma prepare_file_no_flush: "Fflush_gp \<notin> set (fst (prepare_file w argv cfg g))"
  by (simp add: prepare_file_def Let_def)


lemma start_gnuplot_valid:
  assumes "valid cfg"
  shows "start_gnuplot w cfg fn
    = (Popen (gnuplot cfg) # (if popen_ok w then [] else [Stderr No_gnuplot])
         @ (if do_graph cfg \<and> popen_ok w
            then [Fprintf_gp (Gp_style fn), Fprintf_gp (Gp_labels (ylabels ! nat (mode1 cfg))),
                  Fprintf_gp (Gp_y2label (ylabels ! nat (mode2 cfg))), Fflush_gp]
            else [])
         @ [Init_keyboard],
       Inr (cfg\<lparr>do_graph := (do_graph cfg \<and> popen_ok w)\<rparr>))"
proof -
  from assms have "ylabel (mode1 cfg) = Some (ylabels ! nat (mode1 cfg))"
    "ylabel (mode2 cfg) = Some (ylabels ! nat (mode2 cfg))"
    by (simp_all add: valid_def ylabel_valid)
  then show ?thesis by (simp add: start_gnuplot_def Let_def)
qed









lemma main_prefix:
  assumes ro: "read_options w argv \<lparr>optind = 1, letP = None, optarg = None\<rparr> defaults
                 = (ev0, Inr (cfg0, g))"
    and pf: "prepare_file w argv cfg0 g = (ev1, Inr fn)"
  shows "\<exists>B. fst (main w argv its)
            = Stderr Disclaimer # ev0 @ ev1 @ fst (start_gnuplot w cfg0 fn) @ B"
proof -
  have "\<exists>X. fst (startup w argv)
            = Stderr Disclaimer # ev0 @ ev1 @ fst (start_gnuplot w cfg0 fn) @ X"
    using ro pf by (simp add: startup_def fst_andthen)
  moreover have "\<exists>Y. fst (main w argv its) = fst (startup w argv) @ Y"
    by (auto simp: main_def split: prod.splits sum.splits)
  ultimately show ?thesis by auto
qed

lemma run_gnuplot_gone:
  "read_options bench args_plain \<lparr>optind = 1, letP = None, optarg = None\<rparr> defaults
     = ([], Inr (defaults, \<lparr>optind = 1, letP = None, optarg = None\<rparr>))
   \<and> prepare_file bench args_plain defaults \<lparr>optind = 1, letP = None, optarg = None\<rparr>
       = ([Access ''out.dat'', Fopen ''out.dat''], Inr ''out.dat'')
   \<and> popen_ok bench \<and> do_graph defaults
   \<and> snd (process None bench args_plain its_esc) = Ran (Exit 0)
   \<and> snd (process (Some 1) bench args_w1 its_esc) = Killed_by_sigpipe
   \<and> file_lines (fst (process (Some 1) bench args_w1 its_esc))
       = [Hdr_program, Hdr_comment [], Hdr_start 1000, Hdr_legend,
          Sample (1 / 10) ''+1.23456E+0 VDC'' ''+0.50000E-3 ADC'']"
  by code_simp

section \<open>Properties\<close>

subsection \<open>The integration time chosen by \<open>s7150_setup\<close>\<close>

text \<open>\<open>a <= b\<close> of C.\<close>

definition fle :: "cfloat \<Rightarrow> cfloat \<Rightarrow> bool" where
  "fle a b = (flt a b \<or> (a = b \<and> a \<noteq> NaN))"

text \<open>The rule as the specification words it: fastest above 10 Hz, fast above 1.5 Hz and up
  to 10 Hz, averaging below 0.25 Hz, 400 ms otherwise.\<close>

definition integration_spec :: "cfloat \<Rightarrow> int" where
  "integration_spec f =
     (if fgt f (Finite 10) then 0
      else if fgt f (Finite 1.5) \<and> fle f (Finite 10) then 1
      else if flt f (Finite 0.25) then 4
      else 3)"

text \<open>
  C2. For every sampling frequency \<open>f\<close>, the integration code \<open>s7150_setup\<close> computes and
  writes into its command is 0 if \<open>f > 10\<close>, 1 if \<open>1.5 < f <= 10\<close>, 4 if \<open>f < 0.25\<close> and 3
  otherwise; for a number \<open>f\<close> "otherwise" is \<open>0.25 <= f <= 1.5\<close> (for not-a-number, which
  no frequency is, every comparison is false and the code is 3 as well).
\<close>

theorem setup_integration_code:
  "integration f = integration_spec f
   \<and> hd (fst (s7150_setup dvm display func rng f sta))
       = Ibwrt dvm (''D'' @ dec (if display = 0 then 1 else 0) @ ''M'' @ dec func
                     @ ''R'' @ dec rng @ ''I'' @ dec (integration_spec f) @ [LF])
   \<and> ((\<not> fgt f (Finite 10) \<and> \<not> (fgt f (Finite 1.5) \<and> fle f (Finite 10))
        \<and> \<not> flt f (Finite 0.25))
       = (f = NaN \<or> (fle (Finite 0.25) f \<and> fle f (Finite 1.5))))"
proof -
  have i: "integration f = integration_spec f"
    by (cases f) (auto simp: integration_def integration_spec_def fgt_def fle_def)
  have c: "(\<not> fgt f (Finite 10) \<and> \<not> (fgt f (Finite 1.5) \<and> fle f (Finite 10))
        \<and> \<not> flt f (Finite 0.25))
       = (f = NaN \<or> (fle (Finite 0.25) f \<and> fle f (Finite 1.5)))"
    by (cases f) (auto simp: fgt_def fle_def)
  have s: "hd (fst (s7150_setup dvm display func rng f sta))
       = Ibwrt dvm (''D'' @ dec (if display = 0 then 1 else 0) @ ''M'' @ dec func
                     @ ''R'' @ dec rng @ ''I'' @ dec (integration f) @ [LF])"
    by (simp add: s7150_setup_def Let_def)
  from i c s show ?thesis by simp
qed

subsection \<open>The reading operation\<close>

text \<open>
  C6. \<open>s7150_read\<close> is called in the loop of \<open>main\<close> and nowhere else, once for each
  instrument in a pass,
  with the halved delay, which is in 0..300 in every run, and with a buffer of \<open>MAXLEN\<close>
  characters (the last two parts of the theorem). For every such call: if the delay is not
  zero it sleeps for that many tenths of a second (\<open>delay * 100000\<close> microseconds), otherwise
  it does not sleep; it then asks the bus for 16 bytes; it returns the error value 0 exactly
  when the status of the bus read has the \<open>ERR\<close> bit, and then it has printed the error
  message; it returns 1 exactly when the read has no \<open>ERR\<close> and brought at least one byte, and
  then the last byte that arrived (the terminator) is replaced by NUL and the bytes before
  it are unchanged: they are the text of the buffer when none of them is NUL, and nothing is
  parsed or interpreted. It returns no other value. (A read without \<open>ERR\<close> and without any
  byte, where the source writes \<open>result[-1]\<close>, is the one call that does not return.)
\<close>

theorem read_operation:
  assumes "0 \<le> d" and "d \<le> 300" and "length result = MAXLEN"
  shows "fst (s7150_read dvm d result (sta, data))
           = Call_s7150_read dvm d # (if d \<noteq> 0 then [Usleep (d * 100000)] else [])
               @ Ibrd dvm 16 # (if sta AND ERR \<noteq> 0 then [Stderr Read_error] else [])
     \<and> ((\<exists>b. snd (s7150_read dvm d result (sta, data)) = Inr (0, b)) = (sta AND ERR \<noteq> 0))
     \<and> ((\<exists>b. snd (s7150_read dvm d result (sta, data)) = Inr (1, b))
          = (sta AND ERR = 0 \<and> data \<noteq> []))
     \<and> (\<forall>r b. snd (s7150_read dvm d result (sta, data)) = Inr (r, b) \<longrightarrow> r = 0 \<or> r = 1)
     \<and> (sta AND ERR = 0 \<and> data \<noteq> [] \<longrightarrow>
          snd (s7150_read dvm d result (sta, data))
            = Inr (1, butlast (take 16 data) @ NUL # drop (length (take 16 data)) result)
          \<and> (NUL \<notin> set (butlast (take 16 data)) \<longrightarrow>
             c_str (butlast (take 16 data) @ NUL # drop (length (take 16 data)) result)
               = butlast (take 16 data)))
     \<and> (\<forall>x \<in> set (read_calls (fst (main w argv its))). 0 \<le> snd x \<and> snd x \<le> 300)
     \<and> (\<forall>ev0 cfg fn d1 d2 i.
          startup w argv = (ev0, Inr (cfg, fn, d1, d2))
          \<and> i < length (passes w cfg fn d1 d2 (vars0 w) its) \<longrightarrow>
            0 \<le> delay cfg \<and> delay cfg \<le> 300
            \<and> (\<exists>v. passes w cfg fn d1 d2 (vars0 w) its ! i
                       = iteration w cfg fn d1 d2 v (its ! i)
                  \<and> length (buffer1 v) = MAXLEN \<and> length (buffer2 v) = MAXLEN))"
proof -
  have ov: "\<not> (0 < d \<and> INT_MAX < d * 100000)"
    using assms(2) by (simp add: INT_MAX_def)
  have len: "\<not> length result < length (take 16 data)"
    using assms(3) by (simp add: MAXLEN_def)
  have pos: "(0 < d) = (d \<noteq> 0)" using assms(1) by auto
  have e: "fst (s7150_read dvm d result (sta, data))
           = Call_s7150_read dvm d # (if d \<noteq> 0 then [Usleep (d * 100000)] else [])
               @ Ibrd dvm 16 # (if sta AND ERR \<noteq> 0 then [Stderr Read_error] else [])"
    using ov len pos by (simp add: s7150_read_def Let_def)
  have r0: "(\<exists>b. snd (s7150_read dvm d result (sta, data)) = Inr (0, b)) = (sta AND ERR \<noteq> 0)"
    using ov len by (simp add: s7150_read_def Let_def)
  have r1: "(\<exists>b. snd (s7150_read dvm d result (sta, data)) = Inr (1, b))
          = (sta AND ERR = 0 \<and> data \<noteq> [])"
    using ov len by (cases data) (auto simp: s7150_read_def Let_def)
  have r01: "\<forall>r b. snd (s7150_read dvm d result (sta, data)) = Inr (r, b) \<longrightarrow> r = 0 \<or> r = 1"
    using ov len by (simp add: s7150_read_def Let_def)
  have g: "sta AND ERR = 0 \<and> data \<noteq> [] \<longrightarrow>
          snd (s7150_read dvm d result (sta, data))
            = Inr (1, butlast (take 16 data) @ NUL # drop (length (take 16 data)) result)"
  proof
    assume a: "sta AND ERR = 0 \<and> data \<noteq> []"
    then have ne: "take 16 data \<noteq> []" by simp
    have "length (take 16 data) \<le> length result" using len by arith
    from stored [OF ne this] a ov len ne
    show "snd (s7150_read dvm d result (sta, data))
            = Inr (1, butlast (take 16 data) @ NUL # drop (length (take 16 data)) result)"
      by (simp add: s7150_read_def Let_def)
  qed
  have v: "NUL \<notin> set (butlast (take 16 data)) \<longrightarrow>
             c_str (butlast (take 16 data) @ NUL # drop (length (take 16 data)) result)
               = butlast (take 16 data)"
    by (simp add: c_str_append_NUL c_str_no_NUL)
  have m: "\<forall>x \<in> set (read_calls (fst (main w argv its))). 0 \<le> snd x \<and> snd x \<le> 300"
    by (rule main_read_delays)
  have p: "0 \<le> delay cfg \<and> delay cfg \<le> 300
            \<and> (\<exists>v. passes w cfg fn d1 d2 (vars0 w) its ! i
                       = iteration w cfg fn d1 d2 v (its ! i)
                  \<and> length (buffer1 v) = MAXLEN \<and> length (buffer2 v) = MAXLEN)"
    if "startup w argv = (ev0, Inr (cfg, fn, d1, d2))
          \<and> i < length (passes w cfg fn d1 d2 (vars0 w) its)" for ev0 cfg fn d1 d2 i
  proof -
    from that have st: "startup w argv = (ev0, Inr (cfg, fn, d1, d2))"
      and i: "i < length (passes w cfg fn d1 d2 (vars0 w) its)" by simp_all
    from passes_buffers [OF i] vars0_buffers [of w] startup_delay [OF st]
    show ?thesis by blast
  qed
  from e r0 r1 r01 g v m p show ?thesis by blast
qed

theorem read_operation_witness:
  "(0::int) \<le> 5 \<and> (5::int) \<le> 300 \<and> length blank = MAXLEN
   \<and> fst (s7150_read 16 5 blank (0x2100, volts)) = [Call_s7150_read 16 5, Usleep 500000, Ibrd 16 16]
   \<and> snd (s7150_read 16 5 blank (0x2100, volts))
       = Inr (1, ''+1.23456E+0 VDC'' @ NUL # replicate 74 (CHR ''x''))
   \<and> c_str (''+1.23456E+0 VDC'' @ NUL # replicate 74 (CHR ''x'')) = ''+1.23456E+0 VDC''
   \<and> fst (s7150_read 16 0 blank (0xC100, [])) = [Call_s7150_read 16 0, Ibrd 16 16, Stderr Read_error]
   \<and> (\<exists>b. snd (s7150_read 16 0 blank (0xC100, [])) = Inr (0, b))"
  using read_operation [of 5 blank 16 "0x2100" volts] read_operation [of 0 blank 16 "0xC100" "[]"]
  by (simp add: blank_def volts_def ERR_def NUL_def CR_def MAXLEN_def)

subsection \<open>The delay handed to the readings\<close>

text \<open>
  C1. For every session, that is for every configuration \<open>cfg0\<close> the command line gives,
  the delay is halved once before the loop (the configuration handed to the loop holds
  \<open>halve (delay cfg0)\<close>, which is \<open>delay cfg0 div 2\<close>), every call of \<open>s7150_read\<close> in the run
  gets this value, and a pass in which both readings succeed makes exactly two calls, to the first
  and then to the second instrument, both with this value.
\<close>

theorem delay_halved_once:
  assumes "read_options w argv \<lparr>optind = 1, letP = None, optarg = None\<rparr> defaults
             = (ev0, Inr (cfg0, g))"
  shows "halve (delay cfg0) = delay cfg0 div 2
    \<and> (\<forall>x \<in> set (read_calls (fst (main w argv its))). snd x = halve (delay cfg0))
    \<and> (\<forall>ev cfg fn d1 d2. startup w argv = (ev, Inr (cfg, fn, d1, d2)) \<longrightarrow>
          delay cfg = halve (delay cfg0)
          \<and> (\<forall>p \<in> set (passes w cfg fn d1 d2 (vars0 w) its). \<forall>v. snd p = Inr v \<longrightarrow>
                read_calls (fst p) = [(d1, halve (delay cfg0)), (d2, halve (delay cfg0))]))"
proof -
  have "valid cfg0" using assms by (rule read_options_valid)
  then have a: "halve (delay cfg0) = delay cfg0 div 2"
    by (simp add: valid_def halve_nonneg)
  have b: "\<forall>x \<in> set (read_calls (fst (main w argv its))). snd x = halve (delay cfg0)"
    using assms by (rule main_read_calls)
  have c: "delay cfg = halve (delay cfg0)
          \<and> (\<forall>p \<in> set (passes w cfg fn d1 d2 (vars0 w) its). \<forall>v. snd p = Inr v \<longrightarrow>
                read_calls (fst p) = [(d1, halve (delay cfg0)), (d2, halve (delay cfg0))])"
    if st: "startup w argv = (ev, Inr (cfg, fn, d1, d2))" for ev cfg fn d1 d2
  proof -
    from st obtain ev0' cfg0' g' pre where
      s: "read_options w argv \<lparr>optind = 1, letP = None, optarg = None\<rparr> defaults
             = (ev0', Inr (cfg0', g'))"
        "cfg = cfg0'\<lparr>do_graph := (do_graph cfg0' \<and> popen_ok w), delay := halve (delay cfg0')\<rparr>"
        "ev = pre @ fst (write_header w cfg fn)" "list_all hushg pre"
        "\<not> popen_ok w \<longrightarrow> list_all hush pre"
      by (rule startup_Inr)
    from s(1) assms have "cfg0' = cfg0" by simp
    with s(2) have d: "delay cfg = halve (delay cfg0)" by simp
    have "\<forall>p \<in> set (passes w cfg fn d1 d2 (vars0 w) its). \<forall>v. snd p = Inr v \<longrightarrow>
                read_calls (fst p) = [(d1, delay cfg), (d2, delay cfg)]"
    proof (rule passes_all)
      fix v e
      show "\<forall>v'. snd (iteration w cfg fn d1 d2 v e) = Inr v' \<longrightarrow>
           read_calls (fst (iteration w cfg fn d1 d2 v e)) = [(d1, delay cfg), (d2, delay cfg)]"
        by (cases "iteration w cfg fn d1 d2 v e") (auto dest: iteration_Inr_read_calls)
    qed
    with d show ?thesis by simp
  qed
  from a b c show ?thesis by blast
qed

theorem delay_halved_once_witness:
  "read_options bench args_t7 \<lparr>optind = 1, letP = None, optarg = None\<rparr> defaults
     = ([], Inr (cfg_t7, \<lparr>optind = 5, letP = None, optarg = None\<rparr>))
   \<and> delay cfg_t7 = 7
   \<and> halve (delay cfg_t7) = delay cfg_t7 div 2
   \<and> read_calls (fst (main bench args_t7 [pass 1006 None, pass 1012 (Some 113)]))
       = [(16, 3), (17, 3), (16, 3), (17, 3)]"
proof -
  from delay_halved_once [OF read_options_t7]
  have "halve (delay cfg_t7) = delay cfg_t7 div 2" by blast
  moreover have "delay cfg_t7 = 7" by (simp add: cfg_t7_def)
  ultimately show ?thesis using read_options_t7 read_calls_t7 by blast
qed

subsection \<open>What the output file holds\<close>

text \<open>
  C3, as the claim words it, fails when the loop ends by a reading error: the pass in which
  the reading fails appends no record, and \<open>main\<close> returns from inside the loop, so no
  footer is written. Here the first reading of the first pass fails.
\<close>

theorem footer_missing_counterexample:
  "file_lines (fst (main bench [''s7150duo'', ''out.dat''] [(pass 1006 None)\<lparr>rd1 := (0xC100, [])\<rparr>]))
     = [Hdr_program, Hdr_comment [], Hdr_start 1000, Hdr_legend]
   \<and> read_calls (fst (main bench [''s7150duo'', ''out.dat''] [(pass 1006 None)\<lparr>rd1 := (0xC100, [])\<rparr>]))
     = [(16, 5)]
   \<and> snd (main bench [''s7150duo'', ''out.dat''] [(pass 1006 None)\<lparr>rd1 := (0xC100, [])\<rparr>])
     = Exit ERR_INST"
  by code_simp

text \<open>
  C3, amended. For every run that reaches the acquisition loop, the lines written to the
  output file are the header block, once and first, then the lines of the passes in their
  order, then the footer, once, when the loop is left through its condition (a stop by key or
  by time); a pass in which both readings succeed appends exactly one line, the Sample Record
  of that pass, and a pass in which a reading fails appends none.
\<close>

theorem file_structure:
  assumes "startup w argv = (ev0, Inr (cfg, fn, d1, d2))"
  shows "let ps = passes w cfg fn d1 d2 (vars0 w) its in
     fst (acq_loop w cfg fn d1 d2 (vars0 w) its) = concat (map fst ps)
     \<and> snd (acq_loop w cfg fn d1 d2 (vars0 w) its) = loop_end ps
     \<and> file_lines (fst (main w argv its))
         = header w cfg @ concat (map (\<lambda>p. file_lines (fst p)) ps)
             @ (case loop_end ps of Inl _ \<Rightarrow> [] | Inr _ \<Rightarrow> [Footer (time_stop w)])
     \<and> length ps \<le> length its
     \<and> (\<forall>i < length ps. case snd (ps ! i) of
            Inr v \<Rightarrow> file_lines (fst (ps ! i)) = [sample w (its ! i) v]
          | Inl out \<Rightarrow> out = Undefined_behaviour \<or> file_lines (fst (ps ! i)) = [])"
proof -
  define ps where "ps = passes w cfg fn d1 d2 (vars0 w) its"
  from assms obtain ev0' cfg0' g' pre where
    s: "read_options w argv \<lparr>optind = 1, letP = None, optarg = None\<rparr> defaults
           = (ev0', Inr (cfg0', g'))"
      "cfg = cfg0'\<lparr>do_graph := (do_graph cfg0' \<and> popen_ok w), delay := halve (delay cfg0')\<rparr>"
      "ev0 = pre @ fst (write_header w cfg fn)" "list_all hushg pre"
      "\<not> popen_ok w \<longrightarrow> list_all hush pre"
    by (rule startup_Inr)
  have h: "file_lines ev0 = header w cfg"
    using s(3,4) write_header_events [of w cfg fn] by (simp add: hushg_filters)
  have sh: "file_lines (fst (shutdown w cfg fn d1 d2)) = [Footer (time_stop w)]"
    using shutdown_events [of w cfg fn d1 d2] by (simp add: footer_def)
  have a: "file_lines (fst (main w argv its))
         = header w cfg @ concat (map (\<lambda>p. file_lines (fst p)) ps)
             @ (case loop_end ps of Inl _ \<Rightarrow> [] | Inr _ \<Rightarrow> [Footer (time_stop w)])"
    using main_reaches_loop(1) [OF assms, of its] h sh
    by (simp add: ps_def file_lines_concat split: sum.splits)
  have b: "length ps \<le> length its" unfolding ps_def by (rule passes_length)
  have c: "case snd (ps ! i) of
            Inr v \<Rightarrow> file_lines (fst (ps ! i)) = [sample w (its ! i) v]
          | Inl out \<Rightarrow> out = Undefined_behaviour \<or> file_lines (fst (ps ! i)) = []"
    if i: "i < length ps" for i
  proof -
    from passes_pass [OF i [unfolded ps_def] vars0_no_stop] obtain vi where
      p: "ps ! i = iteration w cfg fn d1 d2 vi (its ! i)" unfolding ps_def by blast
    show ?thesis
    proof (cases "iteration w cfg fn d1 d2 vi (its ! i)")
      case (Pair ev r)
      show ?thesis
      proof (cases r)
        case (Inl out)
        with Pair p iteration_Inl_file_lines [of w cfg fn d1 d2 vi "its ! i" ev out]
        show ?thesis by simp
      next
        case (Inr v')
        with Pair p iteration_Inr_file_lines [of w cfg fn d1 d2 vi "its ! i" ev v']
        show ?thesis by simp
      qed
    qed
  qed
  have d: "fst (acq_loop w cfg fn d1 d2 (vars0 w) its) = concat (map fst ps)"
    unfolding ps_def by (rule acq_loop_events)
  have e: "snd (acq_loop w cfg fn d1 d2 (vars0 w) its) = loop_end ps"
    unfolding ps_def by (rule acq_loop_result)
  from a b c d e show ?thesis unfolding Let_def ps_def [symmetric] by blast
qed

theorem file_structure_witness:
  "snd (startup bench args_t7) = Inr (run_t7, ''out.dat'', 16, 17)
   \<and> file_lines (fst (main bench args_t7 its_t7))
       = [Hdr_program, Hdr_comment [], Hdr_start 1000, Hdr_legend,
          Sample (1 / 10) ''+1.23456E+0 VDC'' ''+0.50000E-3 ADC'',
          Sample (1 / 5) ''+1.23456E+0 VDC'' ''+0.50000E-3 ADC'', Footer 1060]"
proof -
  have h: "startup bench args_t7 = (fst (startup bench args_t7), Inr (run_t7, ''out.dat'', 16, 17))"
    using startup_t7 by (simp add: prod_eq_iff)
  from file_structure [OF h, of its_t7]
  have "file_lines (fst (main bench args_t7 its_t7))
         = header bench run_t7
             @ concat (map (\<lambda>p. file_lines (fst p)) (passes bench run_t7 ''out.dat'' 16 17 (vars0 bench) its_t7))
             @ (case loop_end (passes bench run_t7 ''out.dat'' 16 17 (vars0 bench) its_t7) of
                  Inl _ \<Rightarrow> [] | Inr _ \<Rightarrow> [Footer (time_stop bench)])"
    unfolding Let_def by blast
  then show ?thesis using startup_t7 by (simp only: loop_end_t7 lines_t7 simp_thms)
qed

subsection \<open>How the loop ends when no stop time is set\<close>

text \<open>
  C4. If the configured stop duration is 0, the time-based stop never holds, in no pass; and
  the loop ends in one of two ways only: through its condition, and then the key that ended
  it is \<open>q\<close> or ESC and was read from the keyboard in the last pass, or by \<open>return ERR_INST\<close>
  in a pass in which the bus signalled an error for a reading. (The other two values of
  \<open>loop_end\<close> are a loop that has not ended and a step that C leaves undefined.)
\<close>

theorem no_time_stop_when_zero:
  assumes "tstop cfg = Finite 0"
  shows "(\<forall>t1. \<not> timed_out cfg t1)
     \<and> (let ps = passes w cfg fn d1 d2 (vars0 w) its in
          snd (acq_loop w cfg fn d1 d2 (vars0 w) its) = loop_end ps
          \<and> (case loop_end ps of
               Inr v \<Rightarrow> ps \<noteq> [] \<and> stop_key (key v) \<and> kb (its ! (length ps - 1)) = Some (key v)
             | Inl (Exit c) \<Rightarrow>
                 ps \<noteq> [] \<and> c = ERR_INST
                 \<and> (fst (rd1 (its ! (length ps - 1))) AND ERR \<noteq> 0
                    \<or> fst (rd2 (its ! (length ps - 1))) AND ERR \<noteq> 0)
             | Inl _ \<Rightarrow> True))"
proof -
  define ps where "ps = passes w cfg fn d1 d2 (vars0 w) its"
  have t: "\<not> timed_out cfg t1" for t1
    using assms by (simp add: timed_out_def fgt_def)
  have e: "snd (acq_loop w cfg fn d1 d2 (vars0 w) its) = loop_end ps"
    unfolding ps_def by (rule acq_loop_result)
  have c: "case loop_end ps of
               Inr v \<Rightarrow> ps \<noteq> [] \<and> stop_key (key v) \<and> kb (its ! (length ps - 1)) = Some (key v)
             | Inl (Exit c) \<Rightarrow>
                 ps \<noteq> [] \<and> c = ERR_INST
                 \<and> (fst (rd1 (its ! (length ps - 1))) AND ERR \<noteq> 0
                    \<or> fst (rd2 (its ! (length ps - 1))) AND ERR \<noteq> 0)
             | Inl _ \<Rightarrow> True"
  proof (cases "ps = []")
    case True
    then show ?thesis by (simp add: loop_end_def)
  next
    case False
    from last_pass [OF False [unfolded ps_def]] obtain vi where
      l: "last ps = iteration w cfg fn d1 d2 vi (its ! (length ps - 1))"
      and ns: "\<not> stop_key (key vi)"
      unfolding ps_def by blast
    obtain ev r where it: "iteration w cfg fn d1 d2 vi (its ! (length ps - 1)) = (ev, r)"
      by (cases "iteration w cfg fn d1 d2 vi (its ! (length ps - 1))") auto
    show ?thesis
    proof (cases r)
      case (Inl out)
      show ?thesis
      proof (cases out)
        case (Exit c)
        with Inl it iteration_Exit [of w cfg fn d1 d2 vi "its ! (length ps - 1)" ev c] l False
        show ?thesis by (simp add: loop_end_def)
      next
        case Undefined_behaviour
        with Inl it l False show ?thesis by (simp add: loop_end_def)
      next
        case Running
        with Inl it l False show ?thesis by (simp add: loop_end_def)
      qed
    next
      case (Inr v)
      have k: "key v = (case kb (its ! (length ps - 1)) of Some k \<Rightarrow> k | None \<Rightarrow> key vi)"
        using iteration_Inr_key [of w cfg fn d1 d2 vi "its ! (length ps - 1)" ev v] it Inr t
        by simp
      show ?thesis
      proof (cases "stop_key (key v)")
        case True
        with k ns have "kb (its ! (length ps - 1)) = Some (key v)"
          by (cases "kb (its ! (length ps - 1))") auto
        with True Inr it l False show ?thesis by (simp add: loop_end_def)
      next
        case no: False
        with Inr it l False show ?thesis by (simp add: loop_end_def)
      qed
    qed
  qed
  from t e c show ?thesis unfolding Let_def ps_def [symmetric] by blast
qed

theorem no_time_stop_when_zero_witness:
  "tstop run_t7 = Finite 0
   \<and> \<not> timed_out run_t7 ((now (its_t7 ! 1) - t0 bench) / 60)
   \<and> map_sum id key (loop_end (passes bench run_t7 ''out.dat'' 16 17 (vars0 bench) its_t7)) = Inr 113
   \<and> length (passes bench run_t7 ''out.dat'' 16 17 (vars0 bench) its_t7) = 2
   \<and> kb (its_t7 ! 1) = Some 113 \<and> stop_key 113"
proof -
  have h: "tstop run_t7 = Finite 0" using loop_t7 by blast
  from no_time_stop_when_zero [OF h, of bench "''out.dat''" 16 17 its_t7]
  have "\<not> timed_out run_t7 ((now (its_t7 ! 1) - t0 bench) / 60)" by blast
  with loop_t7 show ?thesis by blast
qed

subsection \<open>Flushes and redraws\<close>

text \<open>
  C5, as the claim words it, fails when the loop ends by a reading error: nothing is flushed
  or redrawn after the loop. With a flush interval of 1, the first pass flushes and redraws,
  the second reading of the second pass fails, and these are all the flushes, closes and plot
  commands of the run.
\<close>

theorem no_final_flush_counterexample:
  "filter durable (fst (main bench args_w1 its_fail2))
     = [Fflush_outfile, Fprintf_gp (Gp_plot ''out.dat'' 16 ''V'' 12 ''mA'')]
   \<and> length (passes bench (defaults\<lparr>do_flush := 1, delay := 5\<rparr>) ''out.dat'' 16 17
               (vars0 bench) its_fail2) = 2
   \<and> snd (main bench args_w1 its_fail2) = Exit ERR_INST"
  by code_simp

text \<open>
  C5, amended. For every configured flush interval \<open>N > 0\<close>, in the pass number \<open>k\<close> of the
  loop (counted from 1, below \<open>2 ^ 64\<close> where the counter wraps), if both readings succeed,
  the output file is flushed exactly when \<open>N\<close> divides \<open>k\<close>, and the plot command is sent to
  gnuplot exactly when plotting is enabled and \<open>N\<close> divides \<open>k\<close>. When the loop is left
  through its condition, the output file is closed after the loop (which flushes it), and when
  plotting is enabled and both instruments accept the reset, the plot command is sent once
  more.
\<close>

theorem flush_cadence:
  assumes "startup w argv = (ev0, Inr (cfg, fn, d1, d2))" and "0 < do_flush cfg"
  shows "let ps = passes w cfg fn d1 d2 (vars0 w) its; N = nat (do_flush cfg) in
     (\<forall>k v. 0 < k \<and> k \<le> length ps \<and> k < 2 ^ 64 \<and> snd (ps ! (k - 1)) = Inr v \<longrightarrow>
         (Fflush_outfile \<in> set (fst (ps ! (k - 1)))) = (N dvd k)
         \<and> gp_lines (fst (ps ! (k - 1)))
             = (if do_graph cfg \<and> N dvd k then [plot_line cfg fn] else []))
     \<and> (\<forall>v. loop_end ps = Inr v \<longrightarrow>
          fst (main w argv its) = ev0 @ concat (map fst ps) @ fst (shutdown w cfg fn d1 d2)
          \<and> Fclose_outfile \<in> set (fst (shutdown w cfg fn d1 d2))
          \<and> (do_graph cfg \<and> close1 w AND ERR = 0 \<and> close2 w AND ERR = 0 \<longrightarrow>
               gp_lines (fst (shutdown w cfg fn d1 d2)) = [plot_line cfg fn]))"
proof -
  define ps where "ps = passes w cfg fn d1 d2 (vars0 w) its"
  define N where "N = nat (do_flush cfg)"
  note val = startup_valid [OF assms(1)]
  have a: "(Fflush_outfile \<in> set (fst (ps ! (k - 1)))) = (N dvd k)
         \<and> gp_lines (fst (ps ! (k - 1)))
             = (if do_graph cfg \<and> N dvd k then [plot_line cfg fn] else [])"
    if k: "0 < k \<and> k \<le> length ps \<and> k < 2 ^ 64 \<and> snd (ps ! (k - 1)) = Inr v" for k v
  proof -
    from k have i: "k - 1 < length (passes w cfg fn d1 d2 (vars0 w) its)"
      unfolding ps_def by arith
    from passes_pass [OF i vars0_no_stop] obtain vi where
      p: "ps ! (k - 1) = iteration w cfg fn d1 d2 vi (its ! (k - 1))"
      and l: "loop vi = of_nat (k - 1)"
      unfolding ps_def by (auto simp: vars0_def)
    from k p have it: "iteration w cfg fn d1 d2 vi (its ! (k - 1)) = (fst (ps ! (k - 1)), Inr v)"
      by (simp add: prod_eq_iff)
    have n: "loop vi + 1 = of_nat k" using l k by simp
    have f: "flush_due cfg (of_nat k) = (N dvd k)"
      unfolding N_def using assms(2) val k by (intro flush_due_dvd) simp_all
    from iteration_Inr_flush [OF it] n f show ?thesis by simp
  qed
  have b: "fst (main w argv its) = ev0 @ concat (map fst ps) @ fst (shutdown w cfg fn d1 d2)
          \<and> Fclose_outfile \<in> set (fst (shutdown w cfg fn d1 d2))
          \<and> (do_graph cfg \<and> close1 w AND ERR = 0 \<and> close2 w AND ERR = 0 \<longrightarrow>
               gp_lines (fst (shutdown w cfg fn d1 d2)) = [plot_line cfg fn])"
    if e: "loop_end ps = Inr v" for v
  proof -
    have 1: "fst (main w argv its) = ev0 @ concat (map fst ps) @ fst (shutdown w cfg fn d1 d2)"
      using main_reaches_loop(1) [OF assms(1), of its] e by (simp add: ps_def)
    have 2: "Fclose_outfile \<in> set (fst (shutdown w cfg fn d1 d2))"
      using shutdown_events [of w cfg fn d1 d2] by simp
    have 3: "do_graph cfg \<and> close1 w AND ERR = 0 \<and> close2 w AND ERR = 0 \<longrightarrow>
               gp_lines (fst (shutdown w cfg fn d1 d2)) = [plot_line cfg fn]"
      using val by (auto intro: shutdown_plot)
    from 1 2 3 show ?thesis by blast
  qed
  from a b show ?thesis unfolding Let_def ps_def [symmetric] N_def [symmetric] by blast
qed

theorem flush_cadence_witness:
  "snd (startup bench args_t7) = Inr (run_t7, ''out.dat'', 16, 17) \<and> 0 < do_flush run_t7
   \<and> Fflush_outfile \<in> set (fst (passes bench run_t7 ''out.dat'' 16 17 (vars0 bench) its_t7 ! (2 - 1)))
   \<and> gp_lines (fst (passes bench run_t7 ''out.dat'' 16 17 (vars0 bench) its_t7 ! (2 - 1)))
       = [Gp_plot ''out.dat'' 16 ''V'' 12 ''mA'']
   \<and> Fclose_outfile \<in> set (fst (shutdown bench run_t7 ''out.dat'' 16 17))
   \<and> gp_lines (fst (shutdown bench run_t7 ''out.dat'' 16 17)) = [Gp_plot ''out.dat'' 16 ''V'' 12 ''mA'']"
proof -
  have h: "startup bench args_t7 = (fst (startup bench args_t7), Inr (run_t7, ''out.dat'', 16, 17))"
    using startup_t7 by (simp add: prod_eq_iff)
  have p: "0 < do_flush run_t7" using cadence_t7 by blast
  obtain v where v: "snd (passes bench run_t7 ''out.dat'' 16 17 (vars0 bench) its_t7 ! (2 - 1)) = Inr v"
    using cadence_t7 by (cases "snd (passes bench run_t7 ''out.dat'' 16 17 (vars0 bench) its_t7 ! (2 - 1))") auto
  obtain v' where v': "loop_end (passes bench run_t7 ''out.dat'' 16 17 (vars0 bench) its_t7) = Inr v'"
    using cadence_t7 by (cases "loop_end (passes bench run_t7 ''out.dat'' 16 17 (vars0 bench) its_t7)") auto
  have k: "(0::nat) < 2 \<and> 2 \<le> length (passes bench run_t7 ''out.dat'' 16 17 (vars0 bench) its_t7)
      \<and> (2::nat) < 2 ^ 64
      \<and> snd (passes bench run_t7 ''out.dat'' 16 17 (vars0 bench) its_t7 ! (2 - 1)) = Inr v"
    using cadence_t7 v by simp
  note t = flush_cadence [OF h p, of its_t7, unfolded Let_def]
  from t k have 1: "(Fflush_outfile \<in> set (fst (passes bench run_t7 ''out.dat'' 16 17 (vars0 bench) its_t7 ! (2 - 1))))
        = (nat (do_flush run_t7) dvd 2)
      \<and> gp_lines (fst (passes bench run_t7 ''out.dat'' 16 17 (vars0 bench) its_t7 ! (2 - 1)))
        = (if do_graph run_t7 \<and> nat (do_flush run_t7) dvd 2 then [plot_line run_t7 ''out.dat''] else [])"
    by blast
  from t v' have 2: "Fclose_outfile \<in> set (fst (shutdown bench run_t7 ''out.dat'' 16 17))
      \<and> (do_graph run_t7 \<and> close1 bench AND ERR = 0 \<and> close2 bench AND ERR = 0 \<longrightarrow>
               gp_lines (fst (shutdown bench run_t7 ''out.dat'' 16 17)) = [plot_line run_t7 ''out.dat''])"
    by blast
  from 1 2 cadence_t7 startup_t7 show ?thesis by simp
qed

subsection \<open>A run without gnuplot\<close>

text \<open>
  The failure \<open>main\<close> looks for is \<open>popen\<close> giving no stream (no pipe, no new process). Then
  it reports it, switches the graph off and goes on: the step always hands on to the opening
  of the instruments, nothing is ever written to gnuplot in the run, the configuration the
  loop gets has the graph off, and when the loop is left through its condition and both
  instruments accept the reset, \<open>main\<close> returns 0.
\<close>

lemma popen_null_is_not_fatal:
  assumes "\<not> popen_ok w"
  shows "start_gnuplot w c f
           = ([Popen (gnuplot c), Stderr No_gnuplot, Init_keyboard], Inr (c\<lparr>do_graph := False\<rparr>))
     \<and> gp_lines (fst (main w argv its)) = []
     \<and> (\<forall>ev0 cfg fn d1 d2. startup w argv = (ev0, Inr (cfg, fn, d1, d2)) \<longrightarrow>
          \<not> do_graph cfg
          \<and> (\<forall>v. loop_end (passes w cfg fn d1 d2 (vars0 w) its) = Inr v
                  \<and> close1 w AND ERR = 0 \<and> close2 w AND ERR = 0
                \<longrightarrow> snd (main w argv its) = Exit 0))"
proof -
  have a: "start_gnuplot w c f
           = ([Popen (gnuplot c), Stderr No_gnuplot, Init_keyboard], Inr (c\<lparr>do_graph := False\<rparr>))"
    using assms by (simp add: start_gnuplot_def Let_def)
  have c: "\<not> do_graph cfg
          \<and> (\<forall>v. loop_end (passes w cfg fn d1 d2 (vars0 w) its) = Inr v
                  \<and> close1 w AND ERR = 0 \<and> close2 w AND ERR = 0
                \<longrightarrow> snd (main w argv its) = Exit 0)"
    if st: "startup w argv = (ev0, Inr (cfg, fn, d1, d2))" for ev0 cfg fn d1 d2
  proof -
    have g: "\<not> do_graph cfg" using startup_valid [OF st] assms by blast
    have "snd (main w argv its) = Exit 0"
      if "loop_end (passes w cfg fn d1 d2 (vars0 w) its) = Inr v
            \<and> close1 w AND ERR = 0 \<and> close2 w AND ERR = 0" for v
      using main_reaches_loop(2) [OF st, of its] that shutdown_exit [OF g, of w fn d1 d2]
      by simp
    with g show ?thesis by blast
  qed
  have b: "gp_lines (fst (main w argv its)) = []"
  proof (cases "startup w argv")
    case (Pair ev r)
    show ?thesis
    proof (cases r)
      case (Inl out)
      with Pair assms have "list_all hush ev" by (auto dest: startup_Inl_hush)
      then have "gp_lines ev = []" by (simp add: hush_filters)
      with Pair Inl show ?thesis by (simp add: main_no_loop)
    next
      case (Inr x)
      obtain cfg fn d1 d2 where x: "x = (cfg, fn, d1, d2)" by (cases x) auto
      with Pair Inr have st: "startup w argv = (ev, Inr (cfg, fn, d1, d2))" by simp
      from st obtain ev0' cfg0' g' pre where
        s: "read_options w argv \<lparr>optind = 1, letP = None, optarg = None\<rparr> defaults
               = (ev0', Inr (cfg0', g'))"
          "cfg = cfg0'\<lparr>do_graph := (do_graph cfg0' \<and> popen_ok w), delay := halve (delay cfg0')\<rparr>"
          "ev = pre @ fst (write_header w cfg fn)" "list_all hushg pre"
          "\<not> popen_ok w \<longrightarrow> list_all hush pre"
        by (rule startup_Inr)
      have g: "\<not> do_graph cfg" using c [OF st] by blast
      have e: "gp_lines ev = []"
        using s(3,5) assms write_header_events [of w cfg fn] by (simp add: hush_filters)
      have p: "gp_lines (concat (map fst (passes w cfg fn d1 d2 (vars0 w) its))) = []"
        by (rule gp_lines_concat) (rule passes_all, rule iteration_no_gp, rule g)
      have sh: "gp_lines (fst (shutdown w cfg fn d1 d2)) = []"
        using shutdown_events [of w cfg fn d1 d2] g by simp
      show ?thesis
        using main_reaches_loop(1) [OF st, of its] e p sh
        by (simp split: sum.splits)
    qed
  qed
  from a b c show ?thesis by blast
qed

text \<open>
  C8 does not hold when the gnuplot command cannot be started. \<open>popen\<close> then still gives a
  stream, the pipe to the shell, and the shell ends at once. \<open>main\<close> sees a stream
  (\<open>NULL == gp\<close> is false), prints no message, leaves the graph on and sends the display
  defaults; \<open>fflush (gp)\<close> writes them to a pipe without a reader and the process is killed
  by \<open>SIGPIPE\<close>: no instrument has been opened, no reading taken, no line written to the
  output file, and no exit code 0. This is so for every run that gets as far as \<open>popen\<close> with
  the graph not switched off by \<open>-n\<close>. (When the shell is still there at the first flush,
  the same happens at the next one, in the loop or after it, as the second run of the
  example shows.)
\<close>

theorem gnuplot_gone_is_fatal:
  assumes ro: "read_options w argv \<lparr>optind = 1, letP = None, optarg = None\<rparr> defaults
                 = (ev0, Inr (cfg0, g))"
    and pf: "prepare_file w argv cfg0 g = (ev1, Inr fn)"
    and po: "popen_ok w"
    and dg: "do_graph cfg0"
  shows "start_gnuplot w cfg0 fn
           = ([Popen (gnuplot cfg0), Fprintf_gp (Gp_style fn),
               Fprintf_gp (Gp_labels (ylabels ! nat (mode1 cfg0))),
               Fprintf_gp (Gp_y2label (ylabels ! nat (mode2 cfg0))), Fflush_gp, Init_keyboard],
              Inr cfg0)
     \<and> process (Some 0) w argv its
         = (Stderr Disclaimer # ev0 @ ev1
              @ [Popen (gnuplot cfg0), Fprintf_gp (Gp_style fn),
                 Fprintf_gp (Gp_labels (ylabels ! nat (mode1 cfg0))),
                 Fprintf_gp (Gp_y2label (ylabels ! nat (mode2 cfg0))), Fflush_gp],
            Killed_by_sigpipe)
     \<and> file_lines (fst (process (Some 0) w argv its)) = []
     \<and> read_calls (fst (process (Some 0) w argv its)) = []"
proof -
  have v: "valid cfg0" using ro by (rule read_options_valid)
  have same: "cfg0\<lparr>do_graph := True\<rparr> = cfg0" using dg by simp
  have sg: "start_gnuplot w cfg0 fn
           = ([Popen (gnuplot cfg0), Fprintf_gp (Gp_style fn),
               Fprintf_gp (Gp_labels (ylabels ! nat (mode1 cfg0))),
               Fprintf_gp (Gp_y2label (ylabels ! nat (mode2 cfg0))), Fflush_gp, Init_keyboard],
              Inr cfg0)"
    using po dg same by (simp add: start_gnuplot_valid [OF v])
  define A where "A = Stderr Disclaimer # ev0 @ ev1
              @ [Popen (gnuplot cfg0), Fprintf_gp (Gp_style fn),
                 Fprintf_gp (Gp_labels (ylabels ! nat (mode1 cfg0))),
                 Fprintf_gp (Gp_y2label (ylabels ! nat (mode2 cfg0)))]"
  from main_prefix [OF ro pf, of its] obtain B where
    B: "fst (main w argv its) = A @ Fflush_gp # Init_keyboard # B"
    by (auto simp: sg A_def)
  have "\<exists>C. fst (at_exit (main w argv its)) = fst (main w argv its) @ C"
    by (auto simp: at_exit_def split: outcome.splits)
  then obtain C where C: "fst (at_exit (main w argv its)) = A @ Fflush_gp # Init_keyboard # B @ C"
    using B by auto
  have c0: "list_all console ev0" using read_options_console [of w argv _ defaults] ro
    by (metis fst_conv)
  have h1: "list_all hush ev1" using prepare_file_hush [of w argv cfg0 g] pf by simp
  have nA: "Fflush_gp \<notin> set A"
    using console_no_flush [OF c0] prepare_file_no_flush [of w argv cfg0 g] pf by (simp add: A_def)
  have u: "upto_flush 0 (A @ Fflush_gp # Init_keyboard # B @ C) = Some (A @ [Fflush_gp])"
    using nA by (simp add: upto_flush_skip)
  have p: "process (Some 0) w argv its = (A @ [Fflush_gp], Killed_by_sigpipe)"
    using C u by (simp add: process_def Let_def)
  have hA: "list_all hushg A"
    using console_hush [OF c0] h1 by (simp add: A_def hush_hushg)
  have q: "file_lines (A @ [Fflush_gp]) = [] \<and> read_calls (A @ [Fflush_gp]) = []"
    using hushg_filters [OF hA] by simp
  from sg p q show ?thesis by (simp add: A_def)
qed

theorem gnuplot_gone_is_fatal_witness:
  "read_options bench args_plain \<lparr>optind = 1, letP = None, optarg = None\<rparr> defaults
     = ([], Inr (defaults, \<lparr>optind = 1, letP = None, optarg = None\<rparr>))
   \<and> prepare_file bench args_plain defaults \<lparr>optind = 1, letP = None, optarg = None\<rparr>
       = ([Access ''out.dat'', Fopen ''out.dat''], Inr ''out.dat'')
   \<and> popen_ok bench \<and> do_graph defaults
   \<and> process (Some 0) bench args_plain its_esc
       = ([Stderr Disclaimer, Access ''out.dat'', Fopen ''out.dat'', Popen ''gnuplot'',
           Fprintf_gp (Gp_style ''out.dat''), Fprintf_gp (Gp_labels ''V''),
           Fprintf_gp (Gp_y2label ''mA''), Fflush_gp],
          Killed_by_sigpipe)
   \<and> snd (process None bench args_plain its_esc) = Ran (Exit 0)
   \<and> snd (process (Some 1) bench args_w1 its_esc) = Killed_by_sigpipe
   \<and> file_lines (fst (process (Some 1) bench args_w1 its_esc))
       = [Hdr_program, Hdr_comment [], Hdr_start 1000, Hdr_legend,
          Sample (1 / 10) ''+1.23456E+0 VDC'' ''+0.50000E-3 ADC'']"
proof -
  have ro: "read_options bench args_plain \<lparr>optind = 1, letP = None, optarg = None\<rparr> defaults
     = ([], Inr (defaults, \<lparr>optind = 1, letP = None, optarg = None\<rparr>))"
    and pf: "prepare_file bench args_plain defaults \<lparr>optind = 1, letP = None, optarg = None\<rparr>
       = ([Access ''out.dat'', Fopen ''out.dat''], Inr ''out.dat'')"
    and po: "popen_ok bench" and dg: "do_graph defaults"
    using run_gnuplot_gone by blast+
  from gnuplot_gone_is_fatal [OF ro pf po dg, of its_esc]
  have "process (Some 0) bench args_plain its_esc
       = ([Stderr Disclaimer, Access ''out.dat'', Fopen ''out.dat'', Popen ''gnuplot'',
           Fprintf_gp (Gp_style ''out.dat''), Fprintf_gp (Gp_labels ''V''),
           Fprintf_gp (Gp_y2label ''mA''), Fflush_gp],
          Killed_by_sigpipe)"
    by (simp add: defaults_def ylabels_def DCV_def DCA_def GNUPLOT_def)
  with run_gnuplot_gone show ?thesis by blast
qed

subsection \<open>A flush interval of zero\<close>

text \<open>
  C9. The option \<open>-w\<close> stores whatever number \<open>sscanf\<close> reads and never rejects it, 0
  included. The divisor of \<open>loop % do_flush\<close> is zero exactly when the flush interval is zero.
  With a flush interval of 0 no pass of the loop completes: a pass in which both readings come
  back without error reaches the modulo with divisor 0, which C leaves undefined, and so does
  the first pass of every run configured so.
\<close>

theorem flush_interval_zero:
  "option_case w argv (ord (CHR ''w'')) ''0'' c = ([], Inr (c\<lparr>do_flush := 0\<rparr>))
   \<and> (\<forall>a. option_case w argv (ord (CHR ''w'')) a c
            = ([], Inr (case scan_d 5 a of None \<Rightarrow> c | Some n \<Rightarrow> c\<lparr>do_flush := n\<rparr>)))
   \<and> (- 100000 < do_flush cfg \<and> do_flush cfg < 100000 \<longrightarrow>
        ((word_of_int (do_flush cfg) :: 64 word) = 0) = (do_flush cfg = 0))
   \<and> (do_flush cfg = 0 \<longrightarrow>
        (\<forall>v e. isl (snd (iteration w cfg fn d1 d2 v e))
           \<and> (fst (rd1 e) AND ERR = 0 \<and> fst (rd2 e) AND ERR = 0
                \<longrightarrow> snd (iteration w cfg fn d1 d2 v e) = Inl Undefined_behaviour))
        \<and> (\<forall>ev0 e es. startup w argv = (ev0, Inr (cfg, fn, d1, d2))
              \<and> fst (rd1 e) AND ERR = 0 \<and> fst (rd2 e) AND ERR = 0
              \<longrightarrow> snd (main w argv (e # es)) = Undefined_behaviour))"
proof -
  have a: "option_case w argv (ord (CHR ''w'')) a c
            = ([], Inr (case scan_d 5 a of None \<Rightarrow> c | Some n \<Rightarrow> c\<lparr>do_flush := n\<rparr>))" for a
    by (simp add: option_case_def ord_def)
  have s: "scan_d 5 ''0'' = Some 0"
    by (simp add: scan_d_def isspace_def isdigit_def Let_def)
  have a0: "option_case w argv (ord (CHR ''w'')) ''0'' c = ([], Inr (c\<lparr>do_flush := 0\<rparr>))"
    using a [of "''0''"] s by simp
  have b: "- 100000 < do_flush cfg \<and> do_flush cfg < 100000 \<longrightarrow>
        ((word_of_int (do_flush cfg) :: 64 word) = 0) = (do_flush cfg = 0)"
    using flush_divisor_zero [of "do_flush cfg"] by blast
  have c: "isl (snd (iteration w cfg fn d1 d2 v e))
           \<and> (fst (rd1 e) AND ERR = 0 \<and> fst (rd2 e) AND ERR = 0
                \<longrightarrow> snd (iteration w cfg fn d1 d2 v e) = Inl Undefined_behaviour)"
    if "do_flush cfg = 0" for v e
    using that by (rule iteration_zero)
  have d: "snd (main w argv (e # es)) = Undefined_behaviour"
    if z: "do_flush cfg = 0" and st: "startup w argv = (ev0, Inr (cfg, fn, d1, d2))"
      and ok: "fst (rd1 e) AND ERR = 0 \<and> fst (rd2 e) AND ERR = 0" for ev0 e es
  proof -
    have i: "snd (iteration w cfg fn d1 d2 (vars0 w) e) = Inl Undefined_behaviour"
      using c [OF z, of "vars0 w" e] ok by blast
    then have "loop_end (passes w cfg fn d1 d2 (vars0 w) (e # es)) = Inl Undefined_behaviour"
      by (simp add: loop_end_def)
    with main_reaches_loop(2) [OF st, of "e # es"] show ?thesis by simp
  qed
  from a0 a b c d show ?thesis by blast
qed

theorem flush_interval_zero_witness:
  "read_options bench args_w0 \<lparr>optind = 1, letP = None, optarg = None\<rparr> defaults
     = ([], Inr (defaults\<lparr>do_flush := 0\<rparr>, \<lparr>optind = 3, letP = None, optarg = None\<rparr>))
   \<and> snd (startup bench args_w0) = Inr (defaults\<lparr>do_flush := 0, delay := 5\<rparr>, ''out.dat'', 16, 17)
   \<and> do_flush (defaults\<lparr>do_flush := 0, delay := 5\<rparr>) = 0
   \<and> fst (rd1 (pass 1006 None)) AND ERR = 0 \<and> fst (rd2 (pass 1006 None)) AND ERR = 0
   \<and> file_lines (fst (main bench args_w0 [pass 1006 None, pass 1012 (Some 113)]))
       = [Hdr_program, Hdr_comment [], Hdr_start 1000, Hdr_legend,
          Sample (1 / 10) ''+1.23456E+0 VDC'' ''+0.50000E-3 ADC'']
   \<and> snd (main bench args_w0 [pass 1006 None, pass 1012 (Some 113)]) = Undefined_behaviour"
proof -
  have h: "startup bench args_w0
             = (fst (startup bench args_w0), Inr (defaults\<lparr>do_flush := 0, delay := 5\<rparr>, ''out.dat'', 16, 17))"
    using run_w0 by (simp add: prod_eq_iff)
  have z: "do_flush (defaults\<lparr>do_flush := 0, delay := 5\<rparr>) = 0" by simp
  have ok: "fst (rd1 (pass 1006 None)) AND ERR = 0 \<and> fst (rd2 (pass 1006 None)) AND ERR = 0"
    using run_w0 by blast
  from flush_interval_zero [of bench args_w0 _ "defaults\<lparr>do_flush := 0, delay := 5\<rparr>" "''out.dat''" 16 17]
    z h ok
  have "snd (main bench args_w0 [pass 1006 None, pass 1012 (Some 113)]) = Undefined_behaviour"
    by blast
  with run_w0 show ?thesis by blast
qed

subsection \<open>The halving truncates\<close>

text \<open>
  C10. The halving is a division by two that drops the fraction: for a configured delay
  \<open>d\<close> (the command line gives 0 to 600) every reading gets \<open>d div 2\<close>, which for an odd
  \<open>d\<close> is \<open>(d - 1) / 2\<close> and not \<open>d / 2\<close>. A configured delay of 1 gives 0: no reading of
  the run sleeps, and the frequency handed to \<open>s7150_setup\<close> is \<open>10.0 / 0\<close>, which is
  plus infinity in IEEE arithmetic and selects the integration code 0.
\<close>

theorem halving_truncates:
  "(0 \<le> d \<longrightarrow> halve d = d div 2) \<and> (d < 0 \<longrightarrow> halve d = - (- d div 2))
   \<and> (0 \<le> d \<and> odd d \<longrightarrow> 2 * halve d = d - 1 \<and> real_of_int (halve d) \<noteq> real_of_int d / 2)
   \<and> halve 1 = 0
   \<and> (\<forall>u. Usleep u \<notin> set (fst (s7150_read dvm (halve 1) buf bus)))
   \<and> sampling_freq w (halve 1) = fdiv 10.0 0 \<and> fdiv 10.0 0 = PInf \<and> integration PInf = 0
   \<and> (\<forall>ev0 cfg0 g.
         read_options w argv \<lparr>optind = 1, letP = None, optarg = None\<rparr> defaults
           = (ev0, Inr (cfg0, g)) \<longrightarrow>
         0 \<le> delay cfg0 \<and> delay cfg0 \<le> 600
         \<and> (\<forall>x \<in> set (read_calls (fst (main w argv its))). snd x = delay cfg0 div 2)
         \<and> (delay cfg0 = 1 \<longrightarrow>
              (\<forall>ev cfg fn d1 d2. startup w argv = (ev, Inr (cfg, fn, d1, d2)) \<longrightarrow>
                 delay cfg = 0
                 \<and> (\<forall>p \<in> set (passes w cfg fn d1 d2 (vars0 w) its). \<forall>u. Usleep u \<notin> set (fst p)))
              \<and> (\<forall>c d1 d2. delay c = 1 \<longrightarrow>
                    hd (fst (setup_instruments w c d1 d2))
                      = Ibwrt d1 (''D'' @ dec (if do_display c then 0 else 1) @ ''M''
                                   @ dec (mode1 c) @ ''R'' @ dec (range_sel c) @ ''I0'' @ [LF]))))"
proof -
  have a: "(0 \<le> d \<longrightarrow> halve d = d div 2) \<and> (d < 0 \<longrightarrow> halve d = - (- d div 2))"
    by (simp add: halve_nonneg halve_neg)
  have b: "0 \<le> d \<and> odd d \<longrightarrow> 2 * halve d = d - 1 \<and> real_of_int (halve d) \<noteq> real_of_int d / 2"
  proof
    assume h: "0 \<le> d \<and> odd d"
    then have e: "halve d = d div 2" by (simp add: halve_nonneg)
    from h have t: "2 * (d div 2) = d - 1" by presburger
    have "real_of_int (halve d) \<noteq> real_of_int d / 2"
    proof
      assume "real_of_int (halve d) = real_of_int d / 2"
      then have "real_of_int (2 * halve d) = real_of_int d" by simp
      then have "2 * halve d = d" by (simp only: of_int_eq_iff)
      then have "2 * (d div 2) = d" by (simp only: e)
      with t show False by arith
    qed
    with e t show "2 * halve d = d - 1 \<and> real_of_int (halve d) \<noteq> real_of_int d / 2" by simp
  qed
  have c: "halve 1 = 0" by (rule halve_1)
  have u: "\<forall>u. Usleep u \<notin> set (fst (s7150_read dvm (halve 1) buf bus))"
    by (simp add: halve_1 s7150_read_no_usleep)
  have f: "sampling_freq w (halve 1) = fdiv 10.0 0 \<and> fdiv 10.0 0 = PInf \<and> integration PInf = 0"
    by (simp add: halve_1 sampling_freq_def fdiv_def integration_def fgt_def)
  have m: "0 \<le> delay cfg0 \<and> delay cfg0 \<le> 600
         \<and> (\<forall>x \<in> set (read_calls (fst (main w argv its))). snd x = delay cfg0 div 2)
         \<and> (delay cfg0 = 1 \<longrightarrow>
              (\<forall>ev cfg fn d1 d2. startup w argv = (ev, Inr (cfg, fn, d1, d2)) \<longrightarrow>
                 delay cfg = 0
                 \<and> (\<forall>p \<in> set (passes w cfg fn d1 d2 (vars0 w) its). \<forall>u. Usleep u \<notin> set (fst p)))
              \<and> (\<forall>c d1 d2. delay c = 1 \<longrightarrow>
                    hd (fst (setup_instruments w c d1 d2))
                      = Ibwrt d1 (''D'' @ dec (if do_display c then 0 else 1) @ ''M''
                                   @ dec (mode1 c) @ ''R'' @ dec (range_sel c) @ ''I0'' @ [LF])))"
    if ro: "read_options w argv \<lparr>optind = 1, letP = None, optarg = None\<rparr> defaults
           = (ev0, Inr (cfg0, g))" for ev0 cfg0 g
  proof -
    have v: "valid cfg0" using ro by (rule read_options_valid)
    then have r: "0 \<le> delay cfg0 \<and> delay cfg0 \<le> 600" by (simp add: valid_def)
    then have hd: "halve (delay cfg0) = delay cfg0 div 2" by (simp add: halve_nonneg)
    have rc: "\<forall>x \<in> set (read_calls (fst (main w argv its))). snd x = delay cfg0 div 2"
      using main_read_calls [OF ro, of its] hd by simp
    have one: "delay cfg = 0
                 \<and> (\<forall>p \<in> set (passes w cfg fn d1 d2 (vars0 w) its). \<forall>u. Usleep u \<notin> set (fst p))"
      if d1: "delay cfg0 = 1" and st: "startup w argv = (ev, Inr (cfg, fn, d1, d2))"
      for ev cfg fn d1 d2
    proof -
      from st obtain ev0' cfg0' g' pre where
        s: "read_options w argv \<lparr>optind = 1, letP = None, optarg = None\<rparr> defaults
               = (ev0', Inr (cfg0', g'))"
          "cfg = cfg0'\<lparr>do_graph := (do_graph cfg0' \<and> popen_ok w), delay := halve (delay cfg0')\<rparr>"
          "ev = pre @ fst (write_header w cfg fn)" "list_all hushg pre"
          "\<not> popen_ok w \<longrightarrow> list_all hush pre"
        by (rule startup_Inr)
      from s(1) ro have "cfg0' = cfg0" by simp
      with s(2) d1 have z: "delay cfg = 0" by (simp add: halve_1)
      have "\<forall>p \<in> set (passes w cfg fn d1 d2 (vars0 w) its). \<forall>u. Usleep u \<notin> set (fst p)"
        by (rule passes_all) (simp add: iteration_no_usleep [OF z])
      with z show ?thesis by simp
    qed
    have su: "hd (fst (setup_instruments w c d1 d2))
                      = Ibwrt d1 (''D'' @ dec (if do_display c then 0 else 1) @ ''M''
                                   @ dec (mode1 c) @ ''R'' @ dec (range_sel c) @ ''I0'' @ [LF])"
      if "delay c = 1" for c d1 d2
    proof -
      have "dec (integration (sampling_freq w (halve (delay c)))) = ''0''"
        using that f by (simp add: dec_0)
      with setup_instruments_first [of w c d1 d2] show ?thesis by simp
    qed
    from r rc one su show ?thesis by blast
  qed
  from a b c u f m show ?thesis by blast
qed

theorem halving_truncates_witness:
  "read_options bench args_t1 \<lparr>optind = 1, letP = None, optarg = None\<rparr> defaults
     = ([], Inr (defaults\<lparr>delay := 1\<rparr>, \<lparr>optind = 3, letP = None, optarg = None\<rparr>))
   \<and> delay (defaults\<lparr>delay := 1\<rparr>) = 1 \<and> (0::int) \<le> 7 \<and> odd (7::int)
   \<and> read_calls (fst (main bench args_t1 its_esc)) = [(16, 0), (17, 0), (16, 0), (17, 0)]
   \<and> Ibwrt 16 (''D0M0R0I0'' @ [LF]) \<in> set (fst (main bench args_t1 its_esc))
   \<and> halve 7 = 3 \<and> 0 \<le> delay (defaults\<lparr>delay := 1\<rparr>)"
proof -
  have r: "read_options bench args_t1 \<lparr>optind = 1, letP = None, optarg = None\<rparr> defaults
     = ([], Inr (defaults\<lparr>delay := 1\<rparr>, \<lparr>optind = 3, letP = None, optarg = None\<rparr>))"
    using run_t1 by blast
  have o: "(0::int) \<le> 7 \<and> odd (7::int)" by simp
  note t = halving_truncates [of 7 _ _ _ bench args_t1 its_esc]
  from t o have "2 * halve 7 = (7::int) - 1" by blast
  then have 1: "halve 7 = 3" by simp
  from t r have 2: "0 \<le> delay (defaults\<lparr>delay := 1\<rparr>)" by blast
  from 1 2 run_t1 show ?thesis by blast
qed

subsection \<open>The second instrument cannot be opened\<close>



end
